theory Spec2Isabelle
  imports Main "HOL-Library.AList"
begin

section \<open>Data model of \<^verbatim>\<open>session_management_system.py\<close>\<close>

text \<open>
  Times are integers counting microseconds since the epoch, the resolution of Python's
  \<^verbatim>\<open>datetime\<close>. A \<^verbatim>\<open>timedelta\<close> is a number of microseconds.
\<close>

type_synonym datetime = int
type_synonym dict = "(string \<times> string) list"

definition td_seconds :: "int \<Rightarrow> int" where
  "td_seconds n = n * 1000000"

definition td_hours :: "int \<Rightarrow> int" where
  "td_hours n = n * 3600 * 1000000"

definition td_days :: "int \<Rightarrow> int" where
  "td_days n = n * 86400 * 1000000"

datatype SessionState =
  UNINITIALIZED | INITIALIZING | ACTIVE | RATE_LIMITED | EXPIRED | BLOCKED | ERROR

record SessionData =
  platform :: string
  session_id :: string
  cookies :: "dict list"
  local_storage :: dict
  session_storage :: dict
  auth_tokens :: dict
  user_agent :: string
  viewport :: "(string \<times> int) list"
  state :: SessionState
  created_at :: datetime
  expires_at :: datetime
  last_activity :: datetime
  rate_limit_reset :: "datetime option"
  request_count :: int
  max_requests_per_hour :: int
  fingerprint :: string

text \<open>
  The entries of \<^verbatim>\<open>platform_configs\<close>. Only the fields the code computes with are
  kept; the three lists of indicator strings are only pasted into prompt texts.
\<close>

record platform_config =
  requires_auth :: bool
  cfg_max_requests_per_hour :: int
  session_lifetime_hours :: int

definition platform_configs :: "string \<Rightarrow> platform_config option" where
  "platform_configs p =
     (if p = ''chatgpt'' then
        Some \<lparr>requires_auth = True, cfg_max_requests_per_hour = 50, session_lifetime_hours = 24\<rparr>
      else if p = ''searchgpt'' then
        Some \<lparr>requires_auth = True, cfg_max_requests_per_hour = 30, session_lifetime_hours = 12\<rparr>
      else if p = ''gemini'' then
        Some \<lparr>requires_auth = False, cfg_max_requests_per_hour = 100, session_lifetime_hours = 8\<rparr>
      else if p = ''perplexity'' then
        Some \<lparr>requires_auth = False, cfg_max_requests_per_hour = 25, session_lifetime_hours = 6\<rparr>
      else None)"

text \<open>The table \<^verbatim>\<open>platform_urls\<close> local to \<^verbatim>\<open>_initialize_session\<close>.\<close>

definition platform_urls :: "string \<Rightarrow> string option" where
  "platform_urls p =
     (if p = ''chatgpt'' then Some ''https://chatgpt.com''
      else if p = ''searchgpt'' then Some ''https://chatgpt.com/?model=search''
      else if p = ''gemini'' then Some ''https://gemini.google.com''
      else if p = ''perplexity'' then Some ''https://www.perplexity.ai''
      else None)"

subsection \<open>Exceptions\<close>

datatype error =
  ValueError_unknown_platform string
  | KeyError string
  | Session_initialization_failed string
  | Authentication_failed string

subsection \<open>The environment: clock, remote action, digests\<close>

text \<open>
  The dictionary returned by \<^verbatim>\<open>_execute_computer_action\<close>; a field is \<open>None\<close> when the
  key is absent, so that each \<^verbatim>\<open>result.get(key, default)\<close> of the source is a case
  distinction.
\<close>

record extracted =
  x_auth_tokens :: "dict option"
  x_local_storage :: "dict option"
  x_session_storage :: "dict option"

record action_result =
  r_status :: "string option"
  r_session_cookies :: "dict list option"
  r_extracted_data :: "extracted option"
  r_auth_tokens :: "dict option"
  r_cookies :: "dict list option"
  r_errors :: "string list option"

datatype gw_reply = Raises | Returns action_result

datatype action = InitAction | ProbeAction | AuthAction

text \<open>
  Everything the code reads from outside is an oracle indexed by the number of
  interactions made so far (the field \<open>step\<close> of the manager below): \<open>clock\<close> answers
  \<^verbatim>\<open>datetime.now()\<close>, \<^verbatim>\<open>time.time()\<close> and the modification time stamped on a written
  file; \<open>gateway\<close> answers \<^verbatim>\<open>_execute_computer_action\<close>, whose body in the source is a
  placeholder for a remote client; \<open>md5_hexdigest\<close> and \<open>fingerprint_digest\<close> stand for
  the \<^verbatim>\<open>hashlib\<close> digests.
\<close>

record env =
  clock :: "nat \<Rightarrow> datetime"
  gateway :: "action \<Rightarrow> string \<Rightarrow> nat \<Rightarrow> gw_reply"
  md5_hexdigest :: "string \<Rightarrow> string"
  fingerprint_digest :: "string \<Rightarrow> datetime \<Rightarrow> string"

text \<open>The placeholder body of \<^verbatim>\<open>_execute_computer_action\<close> as the source has it.\<close>

definition placeholder_result :: action_result where
  "placeholder_result =
     \<lparr>r_status = Some ''success'',
      r_session_cookies = Some [],
      r_extracted_data =
        Some \<lparr>x_auth_tokens = None, x_local_storage = None, x_session_storage = None\<rparr>,
      r_auth_tokens = None,
      r_cookies = None,
      r_errors = Some []\<rparr>"

definition placeholder_gateway :: "action \<Rightarrow> string \<Rightarrow> nat \<Rightarrow> gw_reply" where
  "placeholder_gateway k p n = Returns placeholder_result"

subsection \<open>The store and the manager\<close>

text \<open>
  A file of the storage directory holds the pickled dictionary of a record, or bytes
  that \<^verbatim>\<open>pickle.loads\<close> rejects. Pickling followed by unpickling and
  \<^verbatim>\<open>SessionData(**d)\<close> is taken to give back an equal record.
\<close>

datatype blob = Pickled SessionData | Unreadable

text \<open>
  \<open>objects\<close> is the heap of \<^verbatim>\<open>SessionData\<close> objects the manager has handed out, an
  object being named by its index; \<open>active_sessions\<close> maps a platform to such an index;
  \<open>files\<close> lists the storage directory in the order \<^verbatim>\<open>glob\<close> yields it, each name with
  its modification time and content; \<open>step\<close> counts the interactions with the
  environment. The lock table \<^verbatim>\<open>session_locks\<close> has no sequential effect and is left
  out.
\<close>

record manager =
  objects :: "SessionData list"
  active_sessions :: "(string \<times> nat) list"
  files :: "(string \<times> datetime \<times> blob) list"
  step :: nat

definition init_manager :: manager where
  "init_manager = \<lparr>objects = [], active_sessions = [], files = [], step = 0\<rparr>"

section \<open>Identifiers\<close>

definition digit_char :: "nat \<Rightarrow> char" where
  "digit_char n = ''0123456789'' ! n"

fun str_nat :: "nat \<Rightarrow> string" where
  "str_nat n = (if n < 10 then [digit_char n] else str_nat (n div 10) @ [digit_char (n mod 10)])"

declare str_nat.simps [simp del]

definition str_int :: "int \<Rightarrow> string" where
  "str_int i = (if i < 0 then ''-'' @ str_nat (nat (- i)) else str_nat (nat i))"

text \<open>\<^verbatim>\<open>int(time.time())\<close>: the reading in whole seconds, truncated towards zero.\<close>

definition whole_seconds :: "datetime \<Rightarrow> int" where
  "whole_seconds t = (if 0 \<le> t then t div 1000000 else - ((- t) div 1000000))"

definition generate_session_id :: "env \<Rightarrow> string \<Rightarrow> datetime \<Rightarrow> string" where
  "generate_session_id e p t =
     p @ ''_'' @ str_int (whole_seconds t) @ ''_'' @ take 8 (md5_hexdigest e p)"

definition generate_user_agent :: string where
  "generate_user_agent =
     ''Mozilla/5.0 (Windows NT 10.0; Win64; x64) AppleWebKit/537.36 (KHTML, like Gecko) Chrome/120.0.0.0 Safari/537.36''"

definition generate_fingerprint :: "env \<Rightarrow> string \<Rightarrow> datetime \<Rightarrow> string" where
  "generate_fingerprint e p t = take 16 (fingerprint_digest e p t)"

section \<open>The store\<close>

definition session_file :: "SessionData \<Rightarrow> string" where
  "session_file s = platform s @ ''_'' @ session_id s @ ''.pkl''"

text \<open>
  \<^verbatim>\<open>_persist_session\<close>: the file is created or overwritten, and stamped with the
  clock's reading. The write is taken to succeed.
\<close>

definition persist_session :: "env \<Rightarrow> SessionData \<Rightarrow> manager \<Rightarrow> manager" where
  "persist_session e s m =
     m\<lparr>files := AList.update (session_file s) (clock e (step m), Pickled s) (files m),
       step := Suc (step m)\<rparr>"

text \<open>
  \<^verbatim>\<open>self.storage_path.glob(f"{platform}_*.pkl")\<close> pastes the platform into a pattern,
  so \<^verbatim>\<open>*\<close>, \<^verbatim>\<open>?\<close> and \<^verbatim>\<open>[\<close> in the platform are pattern characters. For a pattern
  of one path component \<^verbatim>\<open>pathlib\<close> lists the storage directory and keeps the
  entries whose name the regular expression of \<^verbatim>\<open>fnmatch.translate\<close> matches in full,
  with case kept (the POSIX flavour). The definitions below follow \<^verbatim>\<open>fnmatch.translate\<close>
  of CPython 3.11 statement by statement.

  A pattern is translated into items: a literal character, \<^verbatim>\<open>?\<close> (any one character),
  \<^verbatim>\<open>*\<close> (any string), a bracket expression (a set of character ranges, negated after
  \<^verbatim>\<open>!\<close>), and the empty set that an expression is left with once its empty ranges are
  removed.
\<close>

datatype glob_item = Lit char | AnyChar | AnyString | NoChar | OneOf bool "(char \<times> char) list"

text \<open>
  Inside the brackets, with \<open>stuff\<close> the text between them. When it holds a hyphen it is
  cut into chunks at the hyphens that make a range: not the first character (nor the
  second after \<^verbatim>\<open>!\<close>), and not the two characters after such a hyphen. A hyphen at
  the very end is put back as a character of the last chunk. From right to left, a range
  whose lower end is greater than its upper end is removed with both ends. The chunks are
  joined again with the range hyphens between them.
\<close>

datatype class_token = Ch char | Dash

fun split_ranges :: "nat \<Rightarrow> string \<Rightarrow> string \<Rightarrow> string list" where
  "split_ranges skip acc [] = [acc]"
| "split_ranges skip acc (c # cs) =
     (if c = CHR ''-'' \<and> skip = 0 then acc # split_ranges 2 [] cs
      else split_ranges (skip - 1) (acc @ [c]) cs)"

definition close_chunks :: "string list \<Rightarrow> string list" where
  "close_chunks cs =
     (if last cs = [] then butlast (butlast cs) @ [last (butlast cs) @ ''-''] else cs)"

fun drop_empty_ranges :: "string list \<Rightarrow> string list" where
  "drop_empty_ranges [] = []"
| "drop_empty_ranges [c] = [c]"
| "drop_empty_ranges (c # d # ds) =
     (case drop_empty_ranges (d # ds) of
        [] \<Rightarrow> [c]
      | r # rs \<Rightarrow>
          (if (of_char (hd r) :: nat) < of_char (last c) then (butlast c @ tl r) # rs
           else c # r # rs))"

fun join_chunks :: "string list \<Rightarrow> class_token list" where
  "join_chunks [] = []"
| "join_chunks [c] = map Ch c"
| "join_chunks (c # d # ds) = map Ch c @ Dash # join_chunks (d # ds)"

definition class_tokens :: "string \<Rightarrow> class_token list" where
  "class_tokens stuff =
     (if CHR ''-'' \<notin> set stuff then map Ch stuff
      else join_chunks (drop_empty_ranges (close_chunks
             (split_ranges (if take 1 stuff = ''!'' then 2 else 1) [] stuff))))"

text \<open>
  The set that the regular expression \<^verbatim>\<open>[stuff]\<close> denotes, every character but the
  range hyphens being escaped: a character followed by a range hyphen and a character is
  a range, any other character stands for itself.
\<close>

fun tok_char :: "class_token \<Rightarrow> char" where
  "tok_char (Ch c) = c"
| "tok_char Dash = CHR ''-''"

fun class_ranges :: "class_token list \<Rightarrow> (char \<times> char) list" where
  "class_ranges [] = []"
| "class_ranges [t] = [(tok_char t, tok_char t)]"
| "class_ranges [t, Dash] = [(tok_char t, tok_char t), (CHR ''-'', CHR ''-'')]"
| "class_ranges (t # Dash # u # ts) = (tok_char t, tok_char u) # class_ranges ts"
| "class_ranges (t # Ch c # ts) = (tok_char t, tok_char t) # class_ranges (Ch c # ts)"

definition class_item :: "string \<Rightarrow> glob_item" where
  "class_item stuff =
     (let ts = class_tokens stuff
      in if ts = [] then NoChar
         else if ts = [Ch CHR ''!''] then AnyChar
         else if hd ts = Ch CHR ''!'' then OneOf True (class_ranges (tl ts))
         else OneOf False (class_ranges ts))"

text \<open>
  The search for the closing bracket after an opening one: a leading \<^verbatim>\<open>!\<close> and then a
  leading \<^verbatim>\<open>]\<close> belong to the expression, which ends at the next \<^verbatim>\<open>]\<close>. The result is
  \<open>stuff\<close> and the pattern after the closing bracket; without a closing bracket the
  opening one is a literal character.
\<close>

definition bracket_body :: "string \<Rightarrow> (string \<times> string) option" where
  "bracket_body cs =
     (let neg = (take 1 cs = ''!'');
          r1 = (if neg then drop 1 cs else cs);
          br = (take 1 r1 = '']'');
          r2 = (if br then drop 1 r1 else r1)
      in if CHR '']'' \<in> set r2 then
           Some ((if neg then ''!'' else []) @ (if br then '']'' else [])
                   @ takeWhile (\<lambda>x. x \<noteq> CHR '']'') r2,
                 drop 1 (dropWhile (\<lambda>x. x \<noteq> CHR '']'') r2))
         else None)"

function translate :: "string \<Rightarrow> glob_item list" where
  "translate [] = []"
| "translate (c # cs) =
     (if c = CHR ''*'' then AnyString # translate cs
      else if c = CHR ''?'' then AnyChar # translate cs
      else if c = CHR ''['' then
        (case bracket_body cs of
           None \<Rightarrow> Lit CHR ''['' # translate cs
         | Some (stuff, rest) \<Rightarrow> class_item stuff # translate rest)
      else Lit c # translate cs)"
  by pat_completeness auto

termination translate
proof (relation "measure length")
  show "wf (measure length)" by simp
next
  fix c :: char and cs x2 x y
  assume b: "bracket_body cs = Some x2" and xy: "(x, y) = x2"
  have d: "length (drop 1 (dropWhile P (drop k cs))) \<le> length cs" for P k
  proof -
    have "length (dropWhile P (drop k cs)) \<le> length (drop k cs)"
      by (rule length_dropWhile_le)
    then show ?thesis by simp
  qed
  from b xy have "length y \<le> length cs"
    using d [of _ 0] d [of _ 1] d [of _ 2]
    by (auto simp add: bracket_body_def Let_def numeral_2_eq_2 split: if_splits)
  then show "(y, c # cs) \<in> measure length" by simp
qed simp_all

text \<open>
  The match of a whole name (\<^verbatim>\<open>fullmatch\<close>, with \<^verbatim>\<open>.\<close> matching every character).
  Characters are compared by code point.
\<close>

fun item_match :: "glob_item \<Rightarrow> char \<Rightarrow> bool" where
  "item_match (Lit c) x = (c = x)"
| "item_match AnyChar x = True"
| "item_match AnyString x = True"
| "item_match NoChar x = False"
| "item_match (OneOf neg rs) x =
     (neg \<noteq> list_ex (\<lambda>r. (of_char (fst r) :: nat) \<le> of_char x
                          \<and> (of_char x :: nat) \<le> of_char (snd r)) rs)"

fun items_match :: "glob_item list \<Rightarrow> string \<Rightarrow> bool" where
  "items_match [] s = (s = [])"
| "items_match (AnyString # is) [] = items_match is []"
| "items_match (AnyString # is) (x # xs) =
     (items_match is (x # xs) \<or> items_match (AnyString # is) xs)"
| "items_match (i # is) [] = False"
| "items_match (i # is) (x # xs) = (item_match i x \<and> items_match is xs)"

definition fnmatch :: "string \<Rightarrow> string \<Rightarrow> bool" where
  "fnmatch pat name = items_match (translate pat) name"

text \<open>
  A file of the store is found by the pattern of a platform when it is an entry of the
  storage directory itself, so that its name holds no separator, and the pattern
  matches its name.

  This is the search \<^verbatim>\<open>pathlib\<close> makes for a pattern of one path component. A
  platform that holds a separator \<^verbatim>\<open>/\<close> makes a pattern of several components, which
  is looked up in other directories than the one the store describes, and a component
  holding \<^verbatim>\<open>**\<close> next to other characters is refused by \<^verbatim>\<open>pathlib\<close> with a
  \<^verbatim>\<open>ValueError\<close>. What is proved below of a restore that depends on the match is stated
  for \<open>literal_component\<close> platforms, which hold none of \<^verbatim>\<open>*\<close>, \<^verbatim>\<open>?\<close>, \<^verbatim>\<open>[\<close> and
  \<^verbatim>\<open>/\<close>; \<open>file_name_part\<close> says of a string that it can be part of the name of one
  file: no separator and no NUL.
\<close>

definition glob_match :: "string \<Rightarrow> string \<Rightarrow> bool" where
  "glob_match p name = (CHR ''/'' \<notin> set name \<and> fnmatch (p @ ''_*.pkl'') name)"

definition literal_component :: "string \<Rightarrow> bool" where
  "literal_component p = list_all (\<lambda>c. c \<notin> set ''*?[/'') p"

definition file_name_part :: "string \<Rightarrow> bool" where
  "file_name_part s = list_all (\<lambda>c. c \<noteq> CHR ''/'' \<and> c \<noteq> CHR 0x00) s"

text \<open>\<^verbatim>\<open>max(session_files, key=mtime)\<close>: the first file of greatest modification time.\<close>

fun latest_file ::
  "(string \<times> datetime \<times> blob) \<Rightarrow> (string \<times> datetime \<times> blob) list \<Rightarrow> (string \<times> datetime \<times> blob)"
where
  "latest_file best [] = best"
| "latest_file best (f # fs) =
     (if fst (snd best) < fst (snd f) then latest_file f fs else latest_file best fs)"

definition restore_session :: "string \<Rightarrow> manager \<Rightarrow> SessionData option" where
  "restore_session p m =
     (case filter (\<lambda>f. glob_match p (fst f)) (files m) of
        [] \<Rightarrow> None
      | f # fs \<Rightarrow>
          (case snd (snd (latest_file f fs)) of
             Pickled s \<Rightarrow> Some s
           | Unreadable \<Rightarrow> None))"

section \<open>Creation and initialization\<close>

definition process_session_init_result :: "SessionData \<Rightarrow> action_result \<Rightarrow> SessionData option" where
  "process_session_init_result s r =
     (if r_status r = Some ''success'' then
        (let x = (case r_extracted_data r of
                    None \<Rightarrow> \<lparr>x_auth_tokens = None, x_local_storage = None, x_session_storage = None\<rparr>
                  | Some x \<Rightarrow> x)
         in Some (s\<lparr>cookies := (case r_session_cookies r of None \<Rightarrow> [] | Some c \<Rightarrow> c),
                    auth_tokens := (case x_auth_tokens x of None \<Rightarrow> [] | Some d \<Rightarrow> d),
                    local_storage := (case x_local_storage x of None \<Rightarrow> [] | Some d \<Rightarrow> d),
                    session_storage := (case x_session_storage x of None \<Rightarrow> [] | Some d \<Rightarrow> d)\<rparr>))
      else None)"

text \<open>
  \<^verbatim>\<open>_initialize_session\<close>. The record is changed in place, so the changed record comes
  back also when the call raises. The lookup of the URL and the lookup of the
  configuration inside the prompt come before the \<^verbatim>\<open>try\<close>.
\<close>

definition initialize_session ::
  "env \<Rightarrow> SessionData \<Rightarrow> manager \<Rightarrow> (error + unit) \<times> SessionData \<times> manager" where
  "initialize_session e s m =
     (let s1 = s\<lparr>state := INITIALIZING\<rparr> in
      case platform_urls (platform s1) of
        None \<Rightarrow> (Inl (ValueError_unknown_platform (platform s1)), s1, m)
      | Some url \<Rightarrow>
          (case platform_configs (platform s1) of
             None \<Rightarrow> (Inl (KeyError (platform s1)), s1, m)
           | Some cfg \<Rightarrow>
               (let m1 = m\<lparr>step := Suc (step m)\<rparr> in
                case gateway e InitAction (platform s1) (step m) of
                  Raises \<Rightarrow>
                    (Inl (Session_initialization_failed (platform s1)), s1\<lparr>state := ERROR\<rparr>, m1)
                | Returns r \<Rightarrow>
                    (case process_session_init_result s1 r of
                       None \<Rightarrow>
                         (Inl (Session_initialization_failed (platform s1)),
                          s1\<lparr>state := ERROR\<rparr>, m1)
                     | Some s2 \<Rightarrow>
                         (Inr (),
                          s2\<lparr>state := ACTIVE, last_activity := clock e (step m1)\<rparr>,
                          m1\<lparr>step := Suc (step m1)\<rparr>)))))"

text \<open>
  The \<^verbatim>\<open>SessionData(...)\<close> call of \<^verbatim>\<open>_create_new_session\<close>. Its arguments read the
  clock five times, in this order: the session id, \<^verbatim>\<open>created_at\<close>, \<^verbatim>\<open>expires_at\<close>,
  \<^verbatim>\<open>last_activity\<close>, the fingerprint.
\<close>

definition new_session_record :: "env \<Rightarrow> string \<Rightarrow> nat \<Rightarrow> SessionData" where
  "new_session_record e p n =
     \<lparr>platform = p,
      session_id = generate_session_id e p (clock e n),
      cookies = [],
      local_storage = [],
      session_storage = [],
      auth_tokens = [],
      user_agent = generate_user_agent,
      viewport = [(''width'', 1920), (''height'', 1080)],
      state = UNINITIALIZED,
      created_at = clock e (n + 1),
      expires_at = clock e (n + 2)
        + td_hours (case platform_configs p of None \<Rightarrow> 24 | Some c \<Rightarrow> session_lifetime_hours c),
      last_activity = clock e (n + 3),
      rate_limit_reset = None,
      request_count = 0,
      max_requests_per_hour =
        (case platform_configs p of None \<Rightarrow> 60 | Some c \<Rightarrow> cfg_max_requests_per_hour c),
      fingerprint = generate_fingerprint e p (clock e (n + 4))\<rparr>"

definition create_new_session ::
  "env \<Rightarrow> string \<Rightarrow> manager \<Rightarrow> (error + unit) \<times> SessionData \<times> manager" where
  "create_new_session e p m =
     initialize_session e (new_session_record e p (step m)) (m\<lparr>step := step m + 5\<rparr>)"

section \<open>Validity and activity\<close>

text \<open>
  \<^verbatim>\<open>_test_session_connectivity\<close>: the prompt indexes \<^verbatim>\<open>platform_configs\<close> before the
  \<^verbatim>\<open>try\<close>; inside it, a raising action counts as not connected.
\<close>

definition test_session_connectivity ::
  "env \<Rightarrow> SessionData \<Rightarrow> manager \<Rightarrow> (error + bool) \<times> manager" where
  "test_session_connectivity e s m =
     (case platform_configs (platform s) of
        None \<Rightarrow> (Inl (KeyError (platform s)), m)
      | Some cfg \<Rightarrow>
          (case gateway e ProbeAction (platform s) (step m) of
             Raises \<Rightarrow> (Inr False, m\<lparr>step := Suc (step m)\<rparr>)
           | Returns r \<Rightarrow> (Inr (r_status r = Some ''success''), m\<lparr>step := Suc (step m)\<rparr>)))"

text \<open>
  \<^verbatim>\<open>_validate_session\<close>. The clock is read once for the expiry test, and a second time
  for the cool-down test when the record is rate limited with a reset time.
\<close>

definition validate_session ::
  "env \<Rightarrow> SessionData \<Rightarrow> manager \<Rightarrow> (error + bool) \<times> SessionData \<times> manager" where
  "validate_session e s m =
     (let m1 = m\<lparr>step := Suc (step m)\<rparr> in
      if expires_at s < clock e (step m) then (Inr False, s, m1)
      else if state s = RATE_LIMITED then
        (case rate_limit_reset s of
           Some r \<Rightarrow>
             (let m2 = m1\<lparr>step := Suc (step m1)\<rparr> in
              if clock e (step m1) < r then (Inr False, s, m2)
              else
                (let s1 = s\<lparr>state := ACTIVE, request_count := 0\<rparr>
                 in case test_session_connectivity e s1 m2 of (res, m3) \<Rightarrow> (res, s1, m3)))
         | None \<Rightarrow>
             (let s1 = s\<lparr>state := ACTIVE, request_count := 0\<rparr>
              in case test_session_connectivity e s1 m1 of (res, m3) \<Rightarrow> (res, s1, m3)))
      else if state s = BLOCKED then (Inr False, s, m1)
      else (case test_session_connectivity e s m1 of (res, m3) \<Rightarrow> (res, s, m3)))"

text \<open>\<^verbatim>\<open>_update_session_activity\<close>.\<close>

definition update_session_activity :: "env \<Rightarrow> SessionData \<Rightarrow> manager \<Rightarrow> SessionData \<times> manager" where
  "update_session_activity e s m =
     (let s1 = s\<lparr>last_activity := clock e (step m), request_count := request_count s + 1\<rparr>;
          m1 = m\<lparr>step := Suc (step m)\<rparr>
      in if max_requests_per_hour s1 \<le> request_count s1 then
           (let s2 = s1\<lparr>state := RATE_LIMITED,
                        rate_limit_reset := Some (clock e (step m1) + td_hours 1)\<rparr>
            in (s2, persist_session e s2 (m1\<lparr>step := Suc (step m1)\<rparr>)))
         else (s1, persist_session e s1 m1))"

section \<open>Rate-limit and authentication handlers\<close>

text \<open>The test \<^verbatim>\<open>sub in text\<close> on strings.\<close>

fun contains :: "string \<Rightarrow> string \<Rightarrow> bool" where
  "contains sub [] = (sub = [])"
| "contains sub (c # cs) = (take (length sub) (c # cs) = sub \<or> contains sub cs)"

definition wait_time :: "string \<Rightarrow> string option \<Rightarrow> int" where
  "wait_time p detected_message =
     (let msg = (case detected_message of None \<Rightarrow> [] | Some t \<Rightarrow> t) in
      if p = ''chatgpt'' then (if contains ''hour'' msg then 3600 else 1800)
      else if p = ''searchgpt'' then 7200
      else if p = ''gemini'' then (if contains ''daily'' msg then 86400 else 3600)
      else if p = ''perplexity'' then 3600
      else 3600)"

record rate_limit_report =
  rl_wait_time :: int
  rl_reset_time :: "datetime option"

text \<open>\<^verbatim>\<open>handle_rate_limit\<close>; the message text of the returned dictionary is left out.\<close>

definition handle_rate_limit ::
  "env \<Rightarrow> SessionData \<Rightarrow> string option \<Rightarrow> manager \<Rightarrow> rate_limit_report \<times> SessionData \<times> manager"
where
  "handle_rate_limit e s detected_message m =
     (let w = wait_time (platform s) detected_message;
          s1 = s\<lparr>state := RATE_LIMITED,
                  rate_limit_reset := Some (clock e (step m) + td_seconds w)\<rparr>;
          m1 = persist_session e s1 (m\<lparr>step := Suc (step m)\<rparr>)
      in (\<lparr>rl_wait_time = w, rl_reset_time = rate_limit_reset s1\<rparr>, s1, m1))"

text \<open>\<^verbatim>\<open>d.update(other)\<close>: keys of \<open>other\<close> overwrite in place or are appended, in order.\<close>

definition dict_update :: "dict \<Rightarrow> dict \<Rightarrow> dict" where
  "dict_update d other = fold (\<lambda>kv acc. AList.update (fst kv) (snd kv) acc) other d"

text \<open>
  \<^verbatim>\<open>handle_authentication_required\<close>. Only the branch of a successful outcome writes
  the record to the store.
\<close>

definition handle_authentication_required ::
  "env \<Rightarrow> SessionData \<Rightarrow> manager \<Rightarrow> (error + bool) \<times> SessionData \<times> manager" where
  "handle_authentication_required e s m =
     (let m1 = m\<lparr>step := Suc (step m)\<rparr> in
      case gateway e AuthAction (platform s) (step m) of
        Raises \<Rightarrow> (Inl (Authentication_failed (platform s)), s\<lparr>state := ERROR\<rparr>, m1)
      | Returns r \<Rightarrow>
          (if r_status r = Some ''success'' then
             (let s1 = s\<lparr>auth_tokens :=
                           dict_update (auth_tokens s)
                             (case r_auth_tokens r of None \<Rightarrow> [] | Some d \<Rightarrow> d),
                         cookies := cookies s @ (case r_cookies r of None \<Rightarrow> [] | Some c \<Rightarrow> c),
                         state := ACTIVE\<rparr>
              in (Inr True, s1, persist_session e s1 m1))
           else (Inr False, s\<lparr>state := ERROR\<rparr>, m1)))"

section \<open>The manager's public operations\<close>

text \<open>Lines 152 to 157 of \<^verbatim>\<open>get_session\<close>: create, cache, persist, return.\<close>

definition get_session_create :: "env \<Rightarrow> string \<Rightarrow> manager \<Rightarrow> (error + nat) \<times> manager" where
  "get_session_create e p m =
     (case create_new_session e p m of
        (Inl err, s, m1) \<Rightarrow> (Inl err, m1)
      | (Inr u, s, m1) \<Rightarrow>
          (let a = length (objects m1);
               m2 = m1\<lparr>objects := objects m1 @ [s],
                       active_sessions := AList.update p a (active_sessions m1)\<rparr>
           in (Inr a, persist_session e s m2)))"

text \<open>
  Lines 145 to 150: the restored record is a new object; when it is valid it is cached
  and returned, with whatever the validity check changed in it.
\<close>

definition get_session_restore ::
  "env \<Rightarrow> string \<Rightarrow> bool \<Rightarrow> manager \<Rightarrow> (error + nat) \<times> manager" where
  "get_session_restore e p force_new m =
     (if force_new then get_session_create e p m
      else
        (case restore_session p m of
           None \<Rightarrow> get_session_create e p m
         | Some r \<Rightarrow>
             (case validate_session e r m of
                (Inl err, r1, m1) \<Rightarrow> (Inl err, m1)
              | (Inr ok, r1, m1) \<Rightarrow>
                  (if ok then
                     (let a = length (objects m1)
                      in (Inr a,
                          m1\<lparr>objects := objects m1 @ [r1],
                             active_sessions := AList.update p a (active_sessions m1)\<rparr>))
                   else get_session_create e p m1))))"

text \<open>
  \<^verbatim>\<open>get_session\<close>, lines 133 to 143 and then the two blocks above. The validity check
  works on the cached object itself, so its changes are written back to the heap in
  every case.
\<close>

definition get_session :: "env \<Rightarrow> string \<Rightarrow> bool \<Rightarrow> manager \<Rightarrow> (error + nat) \<times> manager" where
  "get_session e p force_new m =
     (case (if force_new then None else map_of (active_sessions m) p) of
        None \<Rightarrow> get_session_restore e p force_new m
      | Some a \<Rightarrow>
          (case validate_session e (objects m ! a) m of
             (Inl err, s1, m1) \<Rightarrow> (Inl err, m1\<lparr>objects := (objects m1)[a := s1]\<rparr>)
           | (Inr ok, s1, m1) \<Rightarrow>
               (if ok then
                  (case update_session_activity e s1 m1 of
                     (s2, m2) \<Rightarrow> (Inr a, m2\<lparr>objects := (objects m2)[a := s2]\<rparr>))
                else
                  get_session_restore e p force_new
                    (m1\<lparr>objects := (objects m1)[a := s1],
                        active_sessions := AList.delete p (active_sessions m1)\<rparr>))))"

text \<open>
  \<^verbatim>\<open>cleanup_expired_sessions\<close>: one reading of the clock; cached entries past their
  expiry are dropped, and files last written more than seven days before are deleted.
\<close>

definition cleanup_expired_sessions :: "env \<Rightarrow> manager \<Rightarrow> manager" where
  "cleanup_expired_sessions e m =
     (let current_time = clock e (step m);
          cutoff_time = current_time - td_days 7
      in m\<lparr>active_sessions :=
             filter (\<lambda>pa. \<not> expires_at (objects m ! snd pa) < current_time) (active_sessions m),
           files := filter (\<lambda>f. \<not> fst (snd f) < cutoff_time) (files m),
           step := Suc (step m)\<rparr>)"

record session_summary =
  sum_state :: SessionState
  sum_created_at :: datetime
  sum_last_activity :: datetime
  sum_request_count :: int
  sum_rate_limit_reset :: "datetime option"
  sum_expires_at :: datetime

definition summary :: "SessionData \<Rightarrow> session_summary" where
  "summary s =
     \<lparr>sum_state = state s, sum_created_at = created_at s, sum_last_activity = last_activity s,
      sum_request_count = request_count s, sum_rate_limit_reset = rate_limit_reset s,
      sum_expires_at = expires_at s\<rparr>"

text \<open>\<^verbatim>\<open>get_session_stats\<close>; the times are kept as they are, not rendered as text.\<close>

definition get_session_stats :: "manager \<Rightarrow> (string \<times> session_summary) list" where
  "get_session_stats m = map (\<lambda>pa. (fst pa, summary (objects m ! snd pa))) (active_sessions m)"

subsection \<open>Sequences of public operations\<close>

text \<open>
  A caller holds the objects that \<^verbatim>\<open>get_session\<close> returned and passes them to the two
  handlers by reference, here by index; an index that names no object is no call.
\<close>

datatype operation =
  GetSession string bool
  | HandleRateLimit nat "string option"
  | HandleAuthRequired nat
  | CleanupExpired
  | GetStats

definition perform :: "env \<Rightarrow> operation \<Rightarrow> manager \<Rightarrow> manager" where
  "perform e opn m =
     (case opn of
        GetSession p force_new \<Rightarrow> snd (get_session e p force_new m)
      | HandleRateLimit a msg \<Rightarrow>
          (if a < length (objects m) then
             (case handle_rate_limit e (objects m ! a) msg m of
                (rep, s1, m1) \<Rightarrow> m1\<lparr>objects := (objects m1)[a := s1]\<rparr>)
           else m)
      | HandleAuthRequired a \<Rightarrow>
          (if a < length (objects m) then
             (case handle_authentication_required e (objects m ! a) m of
                (res, s1, m1) \<Rightarrow> m1\<lparr>objects := (objects m1)[a := s1]\<rparr>)
           else m)
      | CleanupExpired \<Rightarrow> cleanup_expired_sessions e m
      | GetStats \<Rightarrow> m)"

definition run :: "env \<Rightarrow> operation list \<Rightarrow> manager \<Rightarrow> manager" where
  "run e ops m = fold (perform e) ops m"

section \<open>Concrete environments and states\<close>

text \<open>
  Instances on which theorems are evaluated: a clock that advances one microsecond per
  reading, the placeholder action of the source, and fixed digests; the same with an
  action that reports a failure; a record as a successful creation leaves it, stored in
  its file; a store holding an older file of the same platform; that store with the file
  stamped later than the clock reads; a record for a platform whose name holds a bracket.
\<close>

definition demo_env :: env where
  "demo_env =
     \<lparr>clock = (\<lambda>n. 1700000000000000 + int n),
      gateway = placeholder_gateway,
      md5_hexdigest = (\<lambda>p. ''0123456789abcdef0123456789abcdef''),
      fingerprint_digest = (\<lambda>p t. ''fedcba9876543210fedcba9876543210'')\<rparr>"

definition failure_result :: action_result where
  "failure_result = placeholder_result\<lparr>r_status := Some ''failure''\<rparr>"

definition failing_env :: env where
  "failing_env = demo_env\<lparr>gateway := (\<lambda>k p n. Returns failure_result)\<rparr>"

definition stored_session :: SessionData where
  "stored_session = (new_session_record demo_env ''chatgpt'' 0)\<lparr>state := ACTIVE\<rparr>"

definition stored_manager :: manager where
  "stored_manager =
     \<lparr>objects = [stored_session], active_sessions = [(''chatgpt'', 0)],
      files = [(session_file stored_session, 1700000000000007, Pickled stored_session)],
      step = 8\<rparr>"

definition older_session :: SessionData where
  "older_session = stored_session\<lparr>session_id := ''chatgpt_1699999999_01234567''\<rparr>"

definition older_manager :: manager where
  "older_manager =
     \<lparr>objects = [], active_sessions = [],
      files = [(session_file older_session, 1699999999000000, Pickled older_session)],
      step = 8\<rparr>"

definition ahead_manager :: manager where
  "ahead_manager =
     older_manager\<lparr>files := [(session_file older_session, 1700000000000100,
                                Pickled older_session)]\<rparr>"

definition bracket_session :: SessionData where
  "bracket_session = (new_session_record demo_env ''a[b]'' 0)\<lparr>state := ACTIVE\<rparr>"

definition hour_env :: env where
  "hour_env = demo_env\<lparr>clock := (\<lambda>n. 1700000000000000 + int n * 3600000000)\<rparr>"

definition limited_session :: SessionData where
  "limited_session =
     stored_session\<lparr>state := RATE_LIMITED, rate_limit_reset := Some 1700000000000005\<rparr>"

definition busy_session :: SessionData where
  "busy_session = stored_session\<lparr>request_count := 49\<rparr>"




section \<open>Properties of records and of the manager\<close>

text \<open>
  \<open>record_inv P\<close>: every object of the heap and every readable stored record satisfies
  \<open>P\<close>, and every cache entry names an object of the heap. \<open>limited_has_reset\<close>: a rate
  limited record has a reset time. \<open>within_quota\<close>: the request count is at most the
  quota, which is positive, and a record that has used up its quota is rate limited.
\<close>

definition blob_all :: "(SessionData \<Rightarrow> bool) \<Rightarrow> blob \<Rightarrow> bool" where
  "blob_all P b = (case b of Pickled s \<Rightarrow> P s | Unreadable \<Rightarrow> True)"

definition record_inv :: "(SessionData \<Rightarrow> bool) \<Rightarrow> manager \<Rightarrow> bool" where
  "record_inv P m =
     (list_all P (objects m)
      \<and> list_all (\<lambda>f. blob_all P (snd (snd f))) (files m)
      \<and> list_all (\<lambda>pa. snd pa < length (objects m)) (active_sessions m))"

definition limited_has_reset :: "SessionData \<Rightarrow> bool" where
  "limited_has_reset s = (state s = RATE_LIMITED \<longrightarrow> rate_limit_reset s \<noteq> None)"

definition within_quota :: "SessionData \<Rightarrow> bool" where
  "within_quota s =
     (request_count s \<le> max_requests_per_hour s
      \<and> (request_count s = max_requests_per_hour s \<longrightarrow> state s = RATE_LIMITED)
      \<and> 0 < max_requests_per_hour s)"

definition is_auth :: "operation \<Rightarrow> bool" where
  "is_auth opn = (case opn of HandleAuthRequired a \<Rightarrow> True | _ \<Rightarrow> False)"

lemmas eval_defs =
  perform_def get_session_def get_session_restore_def get_session_create_def
  create_new_session_def initialize_session_def new_session_record_def
  placeholder_gateway_def placeholder_result_def platform_urls_def platform_configs_def
  process_session_init_result_def persist_session_def generate_session_id_def str_int_def
  whole_seconds_def str_nat.simps digit_char_def session_file_def generate_fingerprint_def
  generate_user_agent_def td_hours_def td_seconds_def td_days_def validate_session_def
  test_session_connectivity_def update_session_activity_def handle_rate_limit_def
  handle_authentication_required_def wait_time_def dict_update_def restore_session_def
  glob_match_def fnmatch_def cleanup_expired_sessions_def Let_def

lemmas eval_congs =
  option.case_cong_weak sum.case_cong_weak prod.case_cong_weak gw_reply.case_cong_weak
  list.case_cong_weak operation.case_cong_weak blob.case_cong_weak

lemma run_Nil: "run e [] m = m"
  by (simp add: run_def)

lemma run_Cons: "run e (x # xs) m = run e xs (perform e x m)"
  by (simp add: run_def)

lemma run_append: "run e (xs @ ys) m = run e ys (run e xs m)"
  by (simp add: run_def)

lemma run_replicate:
  "run e (replicate (numeral k) x) m = run e (replicate (pred_numeral k) x) (perform e x m)"
  by (simp add: numeral_eq_Suc run_def)

lemma run_replicate_0: "run e (replicate 0 x) m = m"
  by (simp add: run_def)

lemma run_replicate_1: "run e (replicate 1 x) m = perform e x m"
  by (simp add: run_def)

lemmas run_simps = run_Nil run_Cons run_append run_replicate run_replicate_0 run_replicate_1

section \<open>Tables\<close>

lemma platform_urls_configs: "platform_urls p = None \<longleftrightarrow> platform_configs p = None"
  by (simp add: platform_urls_def platform_configs_def)

section \<open>The validity check\<close>

text \<open>
  Claim C6. For every record, the validity check answers false when the record is expired
  (the clock's reading is past \<open>expires_at\<close>), when its state is \<open>BLOCKED\<close>, and when
  its state is \<open>RATE_LIMITED\<close> with a reset time that the next reading has not reached;
  in every other case, whatever the state, its answer is the outcome of the liveness
  probe \<open>test_session_connectivity\<close>.
\<close>

theorem validate_session_outcome:
  "fst (validate_session e s m) =
     (if expires_at s < clock e (step m) then Inr False
      else if state s = BLOCKED then Inr False
      else if state s = RATE_LIMITED
              \<and> (\<exists>r. rate_limit_reset s = Some r \<and> clock e (Suc (step m)) < r) then Inr False
      else fst (test_session_connectivity e s
                 (m\<lparr>step := (if state s = RATE_LIMITED \<and> rate_limit_reset s \<noteq> None
                               then step m + 2 else step m + 1)\<rparr>)))"
  by (auto simp: validate_session_def Let_def test_session_connectivity_def
           split: option.splits gw_reply.splits prod.splits)

section \<open>A failed authentication is not persisted\<close>

text \<open>
  Claim C10. When the authentication action returns an outcome other than success,
  without raising, \<open>handle_authentication_required\<close> returns false and sets the state
  of the record to \<open>ERROR\<close>, and writes nothing: the files are those from before the
  call, so that a stored copy whose state is not \<open>ERROR\<close> disagrees with the record in
  memory.
\<close>

theorem auth_failure_not_persisted:
  assumes "gateway e AuthAction (platform s) (step m) = Returns r"
    and "r_status r \<noteq> Some ''success''"
  shows "handle_authentication_required e s m
           = (Inr False, s\<lparr>state := ERROR\<rparr>, m\<lparr>step := Suc (step m)\<rparr>)
         \<and> files (snd (snd (handle_authentication_required e s m))) = files m
         \<and> (\<forall>t s0. map_of (files m) (session_file s) = Some (t, Pickled s0) \<and> state s0 \<noteq> ERROR
              \<longrightarrow> map_of (files (snd (snd (handle_authentication_required e s m)))) (session_file s)
                    = Some (t, Pickled s0)
                  \<and> state s0 \<noteq> state (fst (snd (handle_authentication_required e s m))))"
  using assms by (simp add: handle_authentication_required_def Let_def)

theorem auth_failure_not_persisted_witness:
  "gateway failing_env AuthAction (platform stored_session) (step stored_manager)
     = Returns failure_result
   \<and> r_status failure_result \<noteq> Some ''success''
   \<and> map_of (files stored_manager) (session_file stored_session)
       = Some (1700000000000007, Pickled stored_session)
   \<and> state stored_session \<noteq> ERROR
   \<and> fst (handle_authentication_required failing_env stored_session stored_manager) = Inr False
   \<and> state (fst (snd (handle_authentication_required failing_env stored_session stored_manager)))
       = ERROR
   \<and> map_of (files (snd (snd (handle_authentication_required failing_env stored_session
                                stored_manager)))) (session_file stored_session)
       = Some (1700000000000007, Pickled stored_session)"
proof -
  have g: "gateway failing_env AuthAction (platform stored_session) (step stored_manager)
             = Returns failure_result"
    by (simp add: failing_env_def)
  have r: "r_status failure_result \<noteq> Some ''success''"
    by (simp add: failure_result_def)
  have f: "map_of (files stored_manager) (session_file stored_session)
             = Some (1700000000000007, Pickled stored_session)"
    by (simp add: stored_manager_def)
  have st: "state stored_session \<noteq> ERROR"
    by (simp add: stored_session_def)
  from auth_failure_not_persisted [OF g r] g r f st show ?thesis
    by simp
qed

section \<open>Persisting and restoring\<close>

lemma translate_literal:
  "literal_component p \<Longrightarrow> translate (p @ rest) = map Lit p @ translate rest"
  by (induction p) (auto simp add: literal_component_def)

lemma items_match_literal: "items_match (map Lit p) s = (s = p)"
proof (induction p arbitrary: s)
  case Nil
  then show ?case by simp
next
  case (Cons a p)
  then show ?case by (cases s) auto
qed

lemma items_match_prefix:
  "items_match (map Lit p @ is) s = (\<exists>t. s = p @ t \<and> items_match is t)"
proof (induction p arbitrary: s)
  case Nil
  then show ?case by simp
next
  case (Cons a p)
  then show ?case by (cases s) auto
qed

lemma items_match_suffix:
  "items_match (AnyString # map Lit q) s = (\<exists>t. s = t @ q)"
proof (induction s)
  case Nil
  then show ?case by (auto simp add: items_match_literal)
next
  case (Cons x xs)
  have "items_match (AnyString # map Lit q) (x # xs)
          = (x # xs = q \<or> (\<exists>t. xs = t @ q))"
    using Cons.IH by (simp add: items_match_literal)
  also have "\<dots> = (\<exists>t. x # xs = t @ q)"
    by (auto simp add: Cons_eq_append_conv)
  finally show ?case .
qed

lemma glob_match_literal:
  assumes "literal_component p"
  shows "glob_match p name
           = (CHR ''/'' \<notin> set name \<and> (\<exists>t. name = p @ ''_'' @ t @ ''.pkl''))"
proof -
  have "translate (p @ ''_*.pkl'') = map Lit (p @ ''_'') @ AnyString # map Lit ''.pkl''"
    using translate_literal [OF assms, of "''_*.pkl''"] by simp
  then have "fnmatch (p @ ''_*.pkl'') name
               = (\<exists>t. name = (p @ ''_'') @ t \<and> items_match (AnyString # map Lit ''.pkl'') t)"
    unfolding fnmatch_def by (simp only: items_match_prefix)
  also have "\<dots> = (\<exists>t. name = p @ ''_'' @ t @ ''.pkl'')"
    by (simp only: items_match_suffix) auto
  finally show ?thesis
    by (simp add: glob_match_def)
qed

lemma glob_match_pattern_characters:
  "glob_match ''chat*'' ''chatgpt_chatgpt_1699999999_01234567.pkl''
   \<and> glob_match ''a[b]'' ''ab_ab_1700000000_01234567.pkl''
   \<and> \<not> glob_match ''a[b]'' ''a[b]_a[b]_1700000000_01234567.pkl''
   \<and> glob_match ''chatgp?'' ''chatgpt_chatgpt_1699999999_01234567.pkl''
   \<and> \<not> glob_match ''chatgpt'' ''chatgpt_sub/x.pkl''"
  by (simp add: glob_match_def fnmatch_def bracket_body_def class_item_def class_tokens_def)

lemma glob_match_session_file:
  assumes "literal_component (platform s)" and "file_name_part (session_file s)"
  shows "glob_match (platform s) (session_file s)"
proof -
  from assms(2) have "CHR ''/'' \<notin> set (session_file s)"
    by (auto simp add: file_name_part_def list_all_iff)
  moreover have "\<exists>t. session_file s = platform s @ ''_'' @ t @ ''.pkl''"
    by (simp add: session_file_def)
  ultimately show ?thesis
    using glob_match_literal [OF assms(1)] by simp
qed

lemma latest_file_unique_max:
  assumes "x \<in> set (b # fs)"
    and "\<forall>y \<in> set (b # fs). y \<noteq> x \<longrightarrow> fst (snd y) < fst (snd x)"
  shows "latest_file b fs = x"
  using assms
proof (induction fs arbitrary: b)
  case Nil
  then show ?case by simp
next
  case (Cons f fs)
  show ?case
  proof (cases "fst (snd b) < fst (snd f)")
    case True
    with Cons.prems have "x \<noteq> b" by force
    with Cons.prems have "x \<in> set (f # fs)" by simp
    moreover from Cons.prems have "\<forall>y \<in> set (f # fs). y \<noteq> x \<longrightarrow> fst (snd y) < fst (snd x)"
      by simp
    ultimately have "latest_file f fs = x" by (rule Cons.IH)
    with True show ?thesis by simp
  next
    case False
    with Cons.prems have "x = f \<longrightarrow> f = b" by force
    with Cons.prems have "x \<in> set (b # fs)" by auto
    moreover from Cons.prems have "\<forall>y \<in> set (b # fs). y \<noteq> x \<longrightarrow> fst (snd y) < fst (snd x)"
      by simp
    ultimately have "latest_file b fs = x" by (rule Cons.IH)
    with False show ?thesis by simp
  qed
qed

lemma set_alist_update: "y \<in> set (AList.update k v al) \<Longrightarrow> y = (k, v) \<or> y \<in> set al"
  by (induction al) (auto split: if_splits)

lemma alist_update_mem: "(k, v) \<in> set (AList.update k v al)"
  by (induction al) auto

lemma bracket_roundtrip_eval:
  "let m = persist_session demo_env bracket_session init_manager
   in platform bracket_session = ''a[b]''
      \<and> map fst (files m) = [''a[b]_a[b]_1700000000_01234567.pkl'']
      \<and> restore_session ''a[b]'' m = None"
  by (simp add: bracket_session_def init_manager_def demo_env_def eval_defs bracket_body_def
        class_item_def class_tokens_def cong: eval_congs)

lemma ahead_roundtrip_eval:
  "let m = persist_session demo_env stored_session ahead_manager
   in platform stored_session = ''chatgpt''
      \<and> map (\<lambda>f. (fst f, fst (snd f))) (files m)
          = [(''chatgpt_chatgpt_1699999999_01234567.pkl'', 1700000000000100),
             (''chatgpt_chatgpt_1700000000_01234567.pkl'', 1700000000000008)]
      \<and> restore_session ''chatgpt'' m = Some older_session
      \<and> session_id older_session = ''chatgpt_1699999999_01234567''
      \<and> session_id stored_session = ''chatgpt_1700000000_01234567''"
  by (simp add: stored_session_def older_session_def older_manager_def ahead_manager_def
        demo_env_def eval_defs cong: eval_congs)

text \<open>
  Claim C9 says that persisting a record and then reading the most recent record of its
  platform gives the record back, for every record. Two runs in which it does not. A
  record whose platform is \<^verbatim>\<open>a[b]\<close> is written to the file
  \<^verbatim>\<open>a[b]_a[b]_1700000000_01234567.pkl\<close>; the restore for \<^verbatim>\<open>a[b]\<close> searches with
  the pattern \<^verbatim>\<open>a[b]_*.pkl\<close>, in which \<^verbatim>\<open>[b]\<close> stands for the one character
  \<^verbatim>\<open>b\<close>, finds no file and returns nothing. And in a store that holds a file of the
  platform \<^verbatim>\<open>chatgpt\<close> with a modification time later than the time stamped on the
  file just written, the restore returns the record of that other file.
\<close>

theorem roundtrip_lost_counterexample:
  "platform bracket_session = ''a[b]''
   \<and> map fst (files (persist_session demo_env bracket_session init_manager))
       = [''a[b]_a[b]_1700000000_01234567.pkl'']
   \<and> restore_session ''a[b]'' (persist_session demo_env bracket_session init_manager) = None
   \<and> platform stored_session = ''chatgpt''
   \<and> map (\<lambda>f. (fst f, fst (snd f)))
         (files (persist_session demo_env stored_session ahead_manager))
       = [(''chatgpt_chatgpt_1699999999_01234567.pkl'', 1700000000000100),
          (''chatgpt_chatgpt_1700000000_01234567.pkl'', 1700000000000008)]
   \<and> restore_session ''chatgpt'' (persist_session demo_env stored_session ahead_manager)
       = Some older_session
   \<and> session_id older_session = ''chatgpt_1699999999_01234567''
   \<and> session_id stored_session = ''chatgpt_1700000000_01234567''"
  using bracket_roundtrip_eval ahead_roundtrip_eval by (simp only: Let_def)

text \<open>
  Claim C9, amended. Let the platform of a record hold no pattern character and no
  separator, let the name of its file hold no separator and no NUL, and let every file
  of the store that the pattern of the platform finds carry a modification time earlier
  than the one stamped on the write. Then persisting the record and restoring for its
  platform gives back a record equal in every field.
\<close>

theorem persist_restore_roundtrip:
  assumes "literal_component (platform R)" and "file_name_part (session_file R)"
    and "\<forall>f \<in> set (files m). glob_match (platform R) (fst f) \<longrightarrow> fst (snd f) < clock e (step m)"
  shows "restore_session (platform R) (persist_session e R m) = Some R"
proof -
  define x where "x = (session_file R, clock e (step m), Pickled R)"
  define fs where "fs = filter (\<lambda>f. glob_match (platform R) (fst f)) (files (persist_session e R m))"
  have gm: "glob_match (platform R) (session_file R)"
    using assms(1,2) by (rule glob_match_session_file)
  have xin: "x \<in> set fs"
    by (simp add: fs_def x_def persist_session_def alist_update_mem gm)
  have older: "\<forall>y \<in> set fs. y \<noteq> x \<longrightarrow> fst (snd y) < fst (snd x)"
  proof (intro ballI impI)
    fix y assume y: "y \<in> set fs" and ne: "y \<noteq> x"
    from y have "y \<in> set (AList.update (session_file R) (clock e (step m), Pickled R) (files m))"
      and gy: "glob_match (platform R) (fst y)"
      by (simp_all add: fs_def persist_session_def)
    with ne have "y \<in> set (files m)"
      using set_alist_update x_def by fastforce
    with gy assms(3) show "fst (snd y) < fst (snd x)"
      by (simp add: x_def)
  qed
  from xin obtain b rest where fs: "fs = b # rest"
    by (cases fs) auto
  with xin older have "latest_file b rest = x"
    by (intro latest_file_unique_max) simp_all
  with fs show ?thesis
    by (simp add: restore_session_def fs_def [symmetric] x_def)
qed

theorem persist_restore_roundtrip_witness:
  "literal_component (platform stored_session)
   \<and> file_name_part (session_file stored_session)
   \<and> files older_manager = [(session_file older_session, 1699999999000000, Pickled older_session)]
   \<and> glob_match (platform stored_session) (session_file older_session)
   \<and> 1699999999000000 < clock demo_env (step older_manager)
   \<and> restore_session (platform stored_session) (persist_session demo_env stored_session older_manager)
       = Some stored_session"
proof -
  have l: "literal_component (platform stored_session)"
    by (simp add: stored_session_def new_session_record_def literal_component_def)
  have n: "file_name_part (session_file stored_session)"
    by (simp add: stored_session_def demo_env_def file_name_part_def eval_defs)
  have f: "files older_manager
             = [(session_file older_session, 1699999999000000, Pickled older_session)]"
    by (simp add: older_manager_def)
  have t: "1699999999000000 < clock demo_env (step older_manager)"
    by (simp add: older_manager_def demo_env_def)
  have g: "glob_match (platform stored_session) (session_file older_session)"
    by (simp add: older_session_def stored_session_def new_session_record_def session_file_def
          glob_match_def fnmatch_def)
  from f t have h: "\<forall>f \<in> set (files older_manager).
      glob_match (platform stored_session) (fst f) \<longrightarrow> fst (snd f) < clock demo_env (step older_manager)"
    by simp
  from persist_restore_roundtrip [OF l n h] l n f t g show ?thesis
    by simp
qed

section \<open>A failed initialization\<close>

lemma initialize_session_failure:
  assumes "platform_configs (platform s) \<noteq> None"
    and "gateway e InitAction (platform s) (step m) = Raises
         \<or> (\<exists>r. gateway e InitAction (platform s) (step m) = Returns r \<and> r_status r \<noteq> Some ''success'')"
  shows "initialize_session e s m
           = (Inl (Session_initialization_failed (platform s)), s\<lparr>state := ERROR\<rparr>,
              m\<lparr>step := Suc (step m)\<rparr>)"
proof -
  from assms(1) obtain cfg where c: "platform_configs (platform s) = Some cfg" by auto
  then obtain url where u: "platform_urls (platform s) = Some url"
    using platform_urls_configs [of "platform s"] by (cases "platform_urls (platform s)") auto
  from assms(2) show ?thesis
    by (auto simp: initialize_session_def Let_def c u process_session_init_result_def)
qed

lemma platform_new_session_record [simp]: "platform (new_session_record e p n) = p"
  by (simp add: new_session_record_def)

lemma create_new_session_failure:
  assumes "platform_configs p \<noteq> None"
    and "gateway e InitAction p (step m + 5) = Raises
         \<or> (\<exists>r. gateway e InitAction p (step m + 5) = Returns r \<and> r_status r \<noteq> Some ''success'')"
  shows "create_new_session e p m
           = (Inl (Session_initialization_failed p),
              (new_session_record e p (step m))\<lparr>state := ERROR\<rparr>, m\<lparr>step := step m + 6\<rparr>)"
  using assms
    initialize_session_failure [of "new_session_record e p (step m)" e "m\<lparr>step := step m + 5\<rparr>"]
  by (simp add: create_new_session_def)


subsection \<open>What the private operations leave alone\<close>

lemma test_session_connectivity_frame:
  "\<exists>k. snd (test_session_connectivity e s m) = m\<lparr>step := k\<rparr>"
proof (cases "platform_configs (platform s)")
  case None
  then have "snd (test_session_connectivity e s m) = m\<lparr>step := step m\<rparr>"
    by (simp add: test_session_connectivity_def)
  then show ?thesis ..
next
  case (Some cfg)
  then have "snd (test_session_connectivity e s m) = m\<lparr>step := Suc (step m)\<rparr>"
    by (simp add: test_session_connectivity_def split: gw_reply.splits)
  then show ?thesis ..
qed

lemma validate_session_frame:
  "\<exists>k. snd (snd (validate_session e s m)) = m\<lparr>step := k\<rparr>"
proof -
  have tsc: "\<exists>k. snd (test_session_connectivity e s' (m\<lparr>step := j\<rparr>)) = m\<lparr>step := k\<rparr>" for s' j
    using test_session_connectivity_frame [of e s' "m\<lparr>step := j\<rparr>"] by simp
  show ?thesis
    using tsc
    by (auto simp: validate_session_def Let_def split: option.splits prod.splits)
       (metis snd_conv)+
qed

lemma initialize_session_frame:
  "\<exists>k. snd (snd (initialize_session e s m)) = m\<lparr>step := k\<rparr>"
proof -
  have "snd (snd (initialize_session e s m)) = m\<lparr>step := step m\<rparr>
        \<or> snd (snd (initialize_session e s m)) = m\<lparr>step := Suc (step m)\<rparr>
        \<or> snd (snd (initialize_session e s m)) = m\<lparr>step := Suc (Suc (step m))\<rparr>"
    by (simp add: initialize_session_def Let_def split: option.splits gw_reply.splits)
  then show ?thesis by blast
qed

lemma create_new_session_frame:
  "\<exists>k. snd (snd (create_new_session e p m)) = m\<lparr>step := k\<rparr>"
  using initialize_session_frame [of e "new_session_record e p (step m)" "m\<lparr>step := step m + 5\<rparr>"]
  by (simp add: create_new_session_def)

lemma get_session_create_error:
  assumes "get_session_create e p m = (Inl err, m')"
  shows "\<exists>k. m' = m\<lparr>step := k\<rparr>"
proof -
  obtain res s m1 where c: "create_new_session e p m = (res, s, m1)"
    by (cases "create_new_session e p m") auto
  with create_new_session_frame [of e p m] obtain k where "m1 = m\<lparr>step := k\<rparr>" by auto
  with assms c show ?thesis
    by (cases res) (auto simp: get_session_create_def Let_def)
qed

lemma get_session_restore_error:
  assumes "get_session_restore e p force_new m = (Inl err, m')"
  shows "\<exists>k. m' = m\<lparr>step := k\<rparr>"
proof (cases "force_new \<or> restore_session p m = None")
  case True
  then have "get_session_restore e p force_new m = get_session_create e p m"
    by (cases force_new) (simp_all add: get_session_restore_def)
  with assms have "get_session_create e p m = (Inl err, m')"
    by simp
  then show ?thesis by (rule get_session_create_error)
next
  case False
  then obtain r where r: "restore_session p m = Some r" and nf: "\<not> force_new" by auto
  obtain res r1 m1 where v: "validate_session e r m = (res, r1, m1)"
    by (cases "validate_session e r m") auto
  with validate_session_frame [of e r m] obtain k where m1: "m1 = m\<lparr>step := k\<rparr>" by auto
  show ?thesis
  proof (cases res)
    case (Inl x)
    with assms r nf v m1 show ?thesis
      by (auto simp: get_session_restore_def)
  next
    case (Inr ok)
    with assms r nf v have ok: "\<not> ok" and "get_session_create e p m1 = (Inl err, m')"
      by (auto simp: get_session_restore_def Let_def split: if_splits)
    then obtain j where "m' = m1\<lparr>step := j\<rparr>"
      using get_session_create_error by blast
    with m1 show ?thesis by auto
  qed
qed

lemma set_alist_delete: "set (AList.delete k al) \<subseteq> set al"
  by (auto simp: AList.delete_eq)

lemma get_session_error:
  assumes "get_session e p force_new m = (Inl err, m')"
  shows "files m' = files m \<and> length (objects m') = length (objects m)
         \<and> set (active_sessions m') \<subseteq> set (active_sessions m)"
proof (cases "if force_new then None else map_of (active_sessions m) p")
  case None
  with assms have "get_session_restore e p force_new m = (Inl err, m')"
    by (simp add: get_session_def)
  then obtain k where "m' = m\<lparr>step := k\<rparr>"
    using get_session_restore_error by blast
  then show ?thesis by simp
next
  case (Some a)
  obtain res s1 m1 where v: "validate_session e (objects m ! a) m = (res, s1, m1)"
    by (cases "validate_session e (objects m ! a) m") auto
  with validate_session_frame [of e "objects m ! a" m] obtain k where m1: "m1 = m\<lparr>step := k\<rparr>"
    by auto
  show ?thesis
  proof (cases res)
    case (Inl x)
    with assms Some v m1 show ?thesis
      by (auto simp: get_session_def)
  next
    case (Inr ok)
    with assms Some v have
      "get_session_restore e p force_new
         (m1\<lparr>objects := (objects m1)[a := s1],
             active_sessions := AList.delete p (active_sessions m1)\<rparr>) = (Inl err, m')"
      by (auto simp: get_session_def split: if_splits prod.splits)
    then obtain j where
      "m' = m1\<lparr>objects := (objects m1)[a := s1],
                active_sessions := AList.delete p (active_sessions m1)\<rparr>\<lparr>step := j\<rparr>"
      using get_session_restore_error by blast
    with m1 show ?thesis
      using set_alist_delete [of p "active_sessions m"] by auto
  qed
qed

text \<open>
  Claim C5. For a configured platform, when the initialization action of the creation
  path raises or returns an outcome other than success, the creation path of
  \<open>get_session\<close> reports the failure, the new record is left in state \<open>ERROR\<close>, and the
  manager is unchanged but for the count of interactions: nothing is cached and nothing
  is written. A call that forces a new session, and a call for which nothing is cached
  or restorable, are that creation path; and whenever a call fails at all, the files and
  the heap are as before and the cache has gained no entry.
\<close>

theorem failed_initialization_reported:
  assumes "platform_configs p \<noteq> None"
    and "gateway e InitAction p (step m + 5) = Raises
         \<or> (\<exists>r. gateway e InitAction p (step m + 5) = Returns r \<and> r_status r \<noteq> Some ''success'')"
  shows "get_session_create e p m
           = (Inl (Session_initialization_failed p), m\<lparr>step := step m + 6\<rparr>)
         \<and> state (fst (snd (create_new_session e p m))) = ERROR
         \<and> get_session e p True m
             = (Inl (Session_initialization_failed p), m\<lparr>step := step m + 6\<rparr>)
         \<and> (map_of (active_sessions m) p = None \<and> restore_session p m = None
              \<longrightarrow> get_session e p False m
                    = (Inl (Session_initialization_failed p), m\<lparr>step := step m + 6\<rparr>))
         \<and> (\<forall>err m'. get_session e p False m = (Inl err, m')
              \<longrightarrow> files m' = files m \<and> length (objects m') = length (objects m)
                  \<and> set (active_sessions m') \<subseteq> set (active_sessions m))"
proof -
  from assms have c: "create_new_session e p m
      = (Inl (Session_initialization_failed p),
         (new_session_record e p (step m))\<lparr>state := ERROR\<rparr>, m\<lparr>step := step m + 6\<rparr>)"
    by (rule create_new_session_failure)
  then have g: "get_session_create e p m
      = (Inl (Session_initialization_failed p), m\<lparr>step := step m + 6\<rparr>)"
    by (simp add: get_session_create_def)
  from g have f: "get_session e p True m
      = (Inl (Session_initialization_failed p), m\<lparr>step := step m + 6\<rparr>)"
    by (simp add: get_session_def get_session_restore_def)
  from g have n: "map_of (active_sessions m) p = None \<and> restore_session p m = None
      \<longrightarrow> get_session e p False m
            = (Inl (Session_initialization_failed p), m\<lparr>step := step m + 6\<rparr>)"
    by (simp add: get_session_def get_session_restore_def)
  from c g f n show ?thesis
    using get_session_error by auto
qed

theorem failed_initialization_reported_witness:
  "platform_configs ''chatgpt'' \<noteq> None
   \<and> gateway failing_env InitAction ''chatgpt'' (step init_manager + 5) = Returns failure_result
   \<and> r_status failure_result \<noteq> Some ''success''
   \<and> map_of (active_sessions init_manager) ''chatgpt'' = None
   \<and> restore_session ''chatgpt'' init_manager = None
   \<and> get_session failing_env ''chatgpt'' False init_manager
       = (Inl (Session_initialization_failed ''chatgpt''), init_manager\<lparr>step := 6\<rparr>)
   \<and> get_session failing_env ''chatgpt'' True init_manager
       = (Inl (Session_initialization_failed ''chatgpt''), init_manager\<lparr>step := 6\<rparr>)
   \<and> state (fst (snd (create_new_session failing_env ''chatgpt'' init_manager))) = ERROR"
proof -
  have c: "platform_configs ''chatgpt'' \<noteq> None"
    by (simp add: platform_configs_def)
  have r: "r_status failure_result \<noteq> Some ''success''"
    by (simp add: failure_result_def)
  have g: "gateway failing_env InitAction ''chatgpt'' (step init_manager + 5)
             = Returns failure_result"
    by (simp add: failing_env_def)
  with r have h: "gateway failing_env InitAction ''chatgpt'' (step init_manager + 5) = Raises
           \<or> (\<exists>r. gateway failing_env InitAction ''chatgpt'' (step init_manager + 5) = Returns r
                  \<and> r_status r \<noteq> Some ''success'')"
    by simp
  have n: "map_of (active_sessions init_manager) ''chatgpt'' = None"
    "restore_session ''chatgpt'' init_manager = None"
    by (simp_all add: init_manager_def restore_session_def)
  have s: "step init_manager + 6 = 6"
    by (simp add: init_manager_def)
  from failed_initialization_reported [OF c h] c r g n s show ?thesis
    by simp
qed

section \<open>Session identifiers\<close>

text \<open>
  Claim C7 says that the session ids of any two creations differ. The id is made of the
  platform, the clock's reading in whole seconds and a digest of the platform, so two
  creations for one platform within one second get the same id: here two forced
  creations for \<^verbatim>\<open>chatgpt\<close>, eight microseconds apart, give two records with one
  id, and the second overwrites the file of the first.
\<close>

theorem session_id_reused:
  "length (objects (run demo_env [GetSession ''chatgpt'' True, GetSession ''chatgpt'' True]
                      init_manager)) = 2
   \<and> session_id (objects (run demo_env [GetSession ''chatgpt'' True, GetSession ''chatgpt'' True]
                            init_manager) ! 0)
       = session_id (objects (run demo_env [GetSession ''chatgpt'' True, GetSession ''chatgpt'' True]
                                init_manager) ! 1)
   \<and> created_at (objects (run demo_env [GetSession ''chatgpt'' True, GetSession ''chatgpt'' True]
                            init_manager) ! 0) = 1700000000000001
   \<and> created_at (objects (run demo_env [GetSession ''chatgpt'' True, GetSession ''chatgpt'' True]
                            init_manager) ! 1) = 1700000000000009
   \<and> map fst (files (run demo_env [GetSession ''chatgpt'' True, GetSession ''chatgpt'' True]
                        init_manager)) = [''chatgpt_chatgpt_1700000000_01234567.pkl'']"
  by (simp add: run_simps eval_defs demo_env_def init_manager_def cong: eval_congs)

section \<open>Platforms outside the configuration\<close>

lemma create_new_session_unknown:
  assumes "platform_configs p = None"
  shows "create_new_session e p m
           = (Inl (ValueError_unknown_platform p),
              (new_session_record e p (step m))\<lparr>state := INITIALIZING\<rparr>, m\<lparr>step := step m + 5\<rparr>)"
  using assms platform_urls_configs [of p]
  by (simp add: create_new_session_def initialize_session_def Let_def)

text \<open>
  Claim C8 says that \<open>get_session\<close> on a platform absent from the configuration
  succeeds with the defaults. It does not: with nothing cached or stored, the call for
  the platform \<^verbatim>\<open>claude\<close> raises the error of \<^verbatim>\<open>_initialize_session\<close> for an
  unknown platform.
\<close>

theorem unknown_platform_counterexample:
  "get_session demo_env ''claude'' False init_manager
     = (Inl (ValueError_unknown_platform ''claude''), init_manager\<lparr>step := 5\<rparr>)"
  by (simp add: eval_defs demo_env_def init_manager_def cong: eval_congs)

text \<open>
  Claim C8, amended. For a platform absent from the configuration the record is built
  with the defaults, 60 requests per hour and an expiry 24 hours after the clock's
  reading taken for it (the reading that follows the one kept as \<open>created_at\<close>); then
  initialization rejects the platform before any remote action, with the record left
  \<open>INITIALIZING\<close>, and the creation path and a forced \<open>get_session\<close> fail with that
  error, changing nothing in the manager but the count of interactions; so does a call
  that is not forced when nothing is cached or restorable for the platform and the name
  of the platform holds no pattern character and no separator, so that the search of
  the store is the one described here.
\<close>

theorem unknown_platform_defaults_then_rejected:
  assumes "platform_configs p = None"
  shows "max_requests_per_hour (new_session_record e p (step m)) = 60
         \<and> expires_at (new_session_record e p (step m)) = clock e (step m + 2) + td_hours 24
         \<and> created_at (new_session_record e p (step m)) = clock e (step m + 1)
         \<and> create_new_session e p m
             = (Inl (ValueError_unknown_platform p),
                (new_session_record e p (step m))\<lparr>state := INITIALIZING\<rparr>,
                m\<lparr>step := step m + 5\<rparr>)
         \<and> get_session_create e p m = (Inl (ValueError_unknown_platform p), m\<lparr>step := step m + 5\<rparr>)
         \<and> get_session e p True m = (Inl (ValueError_unknown_platform p), m\<lparr>step := step m + 5\<rparr>)
         \<and> (literal_component p \<and> map_of (active_sessions m) p = None
              \<and> restore_session p m = None
              \<longrightarrow> get_session e p False m
                    = (Inl (ValueError_unknown_platform p), m\<lparr>step := step m + 5\<rparr>))"
proof -
  from assms have c: "create_new_session e p m
           = (Inl (ValueError_unknown_platform p),
              (new_session_record e p (step m))\<lparr>state := INITIALIZING\<rparr>, m\<lparr>step := step m + 5\<rparr>)"
    by (rule create_new_session_unknown)
  then have g: "get_session_create e p m
      = (Inl (ValueError_unknown_platform p), m\<lparr>step := step m + 5\<rparr>)"
    by (simp add: get_session_create_def)
  then have "get_session e p True m
      = (Inl (ValueError_unknown_platform p), m\<lparr>step := step m + 5\<rparr>)"
    by (simp add: get_session_def get_session_restore_def)
  moreover from g have "literal_component p \<and> map_of (active_sessions m) p = None
      \<and> restore_session p m = None
      \<longrightarrow> get_session e p False m
            = (Inl (ValueError_unknown_platform p), m\<lparr>step := step m + 5\<rparr>)"
    by (simp add: get_session_def get_session_restore_def)
  ultimately show ?thesis
    using c g assms by (simp add: new_session_record_def)
qed

theorem unknown_platform_defaults_then_rejected_witness:
  "platform_configs ''claude'' = None
   \<and> max_requests_per_hour (new_session_record demo_env ''claude'' (step init_manager)) = 60
   \<and> expires_at (new_session_record demo_env ''claude'' (step init_manager))
       = 1700000000000002 + td_hours 24
   \<and> get_session demo_env ''claude'' True init_manager
       = (Inl (ValueError_unknown_platform ''claude''), init_manager\<lparr>step := 5\<rparr>)
   \<and> literal_component ''claude''
   \<and> map_of (active_sessions init_manager) ''claude'' = None
   \<and> restore_session ''claude'' init_manager = None
   \<and> get_session demo_env ''claude'' False init_manager
       = (Inl (ValueError_unknown_platform ''claude''), init_manager\<lparr>step := 5\<rparr>)"
proof -
  have c: "platform_configs ''claude'' = None"
    by (simp add: platform_configs_def)
  have n: "map_of (active_sessions init_manager) ''claude'' = None"
    "restore_session ''claude'' init_manager = None"
    "literal_component ''claude''"
    by (simp_all add: init_manager_def restore_session_def literal_component_def)
  have s: "step init_manager + 5 = 5" "clock demo_env (step init_manager + 2) = 1700000000000002"
    by (simp_all add: init_manager_def demo_env_def)
  from unknown_platform_defaults_then_rejected [OF c, of demo_env init_manager] c s n show ?thesis
    by simp
qed

section \<open>Invariants of the records\<close>

lemma record_inv_step [simp]: "record_inv P (m\<lparr>step := k\<rparr>) = record_inv P m"
  by (simp add: record_inv_def)

lemma record_inv_persist:
  assumes "record_inv P m" and "P s"
  shows "record_inv P (persist_session e s m)"
proof -
  have "blob_all P (snd (snd f))"
    if "f \<in> set (AList.update (session_file s) (clock e (step m), Pickled s) (files m))" for f
  proof -
    from that have "f = (session_file s, clock e (step m), Pickled s) \<or> f \<in> set (files m)"
      by (rule set_alist_update)
    with assms show ?thesis
      by (auto simp: record_inv_def list_all_iff blob_all_def)
  qed
  with assms(1) show ?thesis
    by (simp add: record_inv_def persist_session_def list_all_iff)
qed

lemma record_inv_store:
  assumes "record_inv P m" and "P s"
  shows "record_inv P (m\<lparr>objects := (objects m)[a := s]\<rparr>)"
proof -
  have "set ((objects m)[a := s]) \<subseteq> insert s (set (objects m))"
    by (rule set_update_subset_insert)
  with assms show ?thesis
    by (auto simp: record_inv_def list_all_iff)
qed

lemma record_inv_evict:
  assumes "record_inv P m"
  shows "record_inv P (m\<lparr>active_sessions := AList.delete p (active_sessions m)\<rparr>)"
  using assms set_alist_delete [of p "active_sessions m"]
  by (auto simp: record_inv_def list_all_iff)

lemma record_inv_adopt:
  assumes "record_inv P m" and "P s"
  shows "record_inv P (m\<lparr>objects := objects m @ [s],
                         active_sessions := AList.update p (length (objects m)) (active_sessions m)\<rparr>)"
proof -
  have "snd pa < Suc (length (objects m))"
    if "pa \<in> set (AList.update p (length (objects m)) (active_sessions m))" for pa
  proof -
    from that have "pa = (p, length (objects m)) \<or> pa \<in> set (active_sessions m)"
      by (rule set_alist_update)
    with assms(1) show ?thesis
      by (auto simp: record_inv_def list_all_iff)
  qed
  with assms show ?thesis
    by (simp add: record_inv_def list_all_iff)
qed

lemma record_inv_cached:
  assumes "record_inv P m" and "map_of (active_sessions m) p = Some a"
  shows "a < length (objects m) \<and> P (objects m ! a)"
proof -
  from assms(2) have "(p, a) \<in> set (active_sessions m)"
    by (rule map_of_SomeD)
  with assms(1) have "a < length (objects m)"
    by (auto simp: record_inv_def list_all_iff)
  with assms(1) show ?thesis
    by (simp add: record_inv_def list_all_length)
qed

lemma latest_file_mem: "latest_file b fs \<in> set (b # fs)"
  by (induction fs arbitrary: b) (auto split: if_splits)

lemma restore_session_mem:
  assumes "restore_session p m = Some r"
  shows "\<exists>f \<in> set (files m). snd (snd f) = Pickled r \<and> glob_match p (fst f)"
proof -
  define fs where "fs = filter (\<lambda>f. glob_match p (fst f)) (files m)"
  with assms obtain b rest where fs: "fs = b # rest"
    and l: "snd (snd (latest_file b rest)) = Pickled r"
    by (auto simp: restore_session_def split: list.splits blob.splits)
  have "latest_file b rest \<in> set fs"
    unfolding fs by (rule latest_file_mem)
  with l show ?thesis
    by (auto simp: fs_def)
qed

lemma record_inv_restored:
  assumes "record_inv P m" and "restore_session p m = Some r"
  shows "P r"
  using assms restore_session_mem [OF assms(2)]
  by (auto simp: record_inv_def list_all_iff blob_all_def)

lemma validate_session_true_state:
  assumes "validate_session e s m = (Inr True, s1, m1)"
  shows "state s1 \<noteq> RATE_LIMITED \<and> state s1 \<noteq> BLOCKED"
  using assms
  by (auto simp: validate_session_def Let_def split: if_splits option.splits prod.splits)


lemma update_session_activity_manager:
  "\<exists>k. snd (update_session_activity e s m)
          = persist_session e (fst (update_session_activity e s m)) (m\<lparr>step := k\<rparr>)"
proof (cases "max_requests_per_hour s \<le> request_count s + 1")
  case True
  then have "snd (update_session_activity e s m)
      = persist_session e (fst (update_session_activity e s m)) (m\<lparr>step := Suc (Suc (step m))\<rparr>)"
    by (simp add: update_session_activity_def Let_def)
  then show ?thesis ..
next
  case False
  then have "snd (update_session_activity e s m)
      = persist_session e (fst (update_session_activity e s m)) (m\<lparr>step := Suc (step m)\<rparr>)"
    by (simp add: update_session_activity_def Let_def)
  then show ?thesis ..
qed

lemma get_session_create_inv:
  assumes inv: "record_inv P m"
    and C: "\<And>p m u s m1. create_new_session e p m = (Inr u, s, m1) \<Longrightarrow> P s"
  shows "record_inv P (snd (get_session_create e p m))"
proof -
  obtain res s m1 where c: "create_new_session e p m = (res, s, m1)"
    by (cases "create_new_session e p m") auto
  with create_new_session_frame [of e p m] obtain k where m1: "m1 = m\<lparr>step := k\<rparr>" by auto
  show ?thesis
  proof (cases res)
    case (Inl err)
    with c m1 inv show ?thesis
      by (simp add: get_session_create_def)
  next
    case (Inr u)
    with c have s: "P s" by (auto dest: C)
    from inv m1 have "record_inv P m1" by simp
    then have "record_inv P (m1\<lparr>objects := objects m1 @ [s],
        active_sessions := AList.update p (length (objects m1)) (active_sessions m1)\<rparr>)"
      using s by (rule record_inv_adopt)
    then have "record_inv P (persist_session e s
        (m1\<lparr>objects := objects m1 @ [s],
            active_sessions := AList.update p (length (objects m1)) (active_sessions m1)\<rparr>))"
      using s by (rule record_inv_persist)
    with c Inr show ?thesis
      by (simp add: get_session_create_def Let_def)
  qed
qed

lemma get_session_restore_inv:
  assumes inv: "record_inv P m"
    and V: "\<And>s m. P s \<Longrightarrow> P (fst (snd (validate_session e s m)))"
    and C: "\<And>p m u s m1. create_new_session e p m = (Inr u, s, m1) \<Longrightarrow> P s"
  shows "record_inv P (snd (get_session_restore e p force_new m))"
proof (cases "force_new \<or> restore_session p m = None")
  case True
  then have "get_session_restore e p force_new m = get_session_create e p m"
    by (cases force_new) (simp_all add: get_session_restore_def)
  with get_session_create_inv [OF inv C] show ?thesis
    by simp
next
  case False
  then obtain r where r: "restore_session p m = Some r" and nf: "\<not> force_new" by auto
  obtain res r1 m1 where v: "validate_session e r m = (res, r1, m1)"
    by (cases "validate_session e r m") auto
  with validate_session_frame [of e r m] obtain k where m1: "m1 = m\<lparr>step := k\<rparr>" by auto
  from inv r have "P r" by (rule record_inv_restored)
  then have "P (fst (snd (validate_session e r m)))" by (rule V)
  with v have r1: "P r1" by simp
  from inv m1 have inv1: "record_inv P m1" by simp
  show ?thesis
  proof (cases res)
    case (Inl err)
    with r nf v inv1 show ?thesis
      by (simp add: get_session_restore_def)
  next
    case (Inr ok)
    show ?thesis
    proof (cases ok)
      case True
      from inv1 r1 have "record_inv P (m1\<lparr>objects := objects m1 @ [r1],
          active_sessions := AList.update p (length (objects m1)) (active_sessions m1)\<rparr>)"
        by (rule record_inv_adopt)
      with r nf v Inr True show ?thesis
        by (simp add: get_session_restore_def Let_def)
    next
      case False
      from get_session_create_inv [OF inv1 C] have "record_inv P (snd (get_session_create e p m1))"
        by simp
      with r nf v Inr False show ?thesis
        by (simp add: get_session_restore_def)
    qed
  qed
qed

lemma get_session_inv:
  assumes inv: "record_inv P m"
    and V: "\<And>s m. P s \<Longrightarrow> P (fst (snd (validate_session e s m)))"
    and U: "\<And>s m. P s \<Longrightarrow> state s \<noteq> RATE_LIMITED \<Longrightarrow> P (fst (update_session_activity e s m))"
    and C: "\<And>p m u s m1. create_new_session e p m = (Inr u, s, m1) \<Longrightarrow> P s"
  shows "record_inv P (snd (get_session e p force_new m))"
proof (cases "if force_new then None else map_of (active_sessions m) p")
  case None
  then have "get_session e p force_new m = get_session_restore e p force_new m"
    by (simp add: get_session_def)
  with get_session_restore_inv [OF inv V C] show ?thesis
    by simp
next
  case (Some a)
  then have cached: "map_of (active_sessions m) p = Some a"
    by (simp split: if_splits)
  with inv have a: "a < length (objects m)" and Pa: "P (objects m ! a)"
    using record_inv_cached by blast+
  obtain res s1 m1 where v: "validate_session e (objects m ! a) m = (res, s1, m1)"
    by (cases "validate_session e (objects m ! a) m") auto
  with validate_session_frame [of e "objects m ! a" m] obtain k where m1: "m1 = m\<lparr>step := k\<rparr>"
    by auto
  from Pa have "P (fst (snd (validate_session e (objects m ! a) m)))" by (rule V)
  with v have s1: "P s1" by simp
  from inv m1 have inv1: "record_inv P m1" by simp
  then have inv2: "record_inv P (m1\<lparr>objects := (objects m1)[a := s1]\<rparr>)"
    using s1 by (rule record_inv_store)
  show ?thesis
  proof (cases res)
    case (Inl err)
    with Some v inv2 show ?thesis
      by (simp add: get_session_def)
  next
    case (Inr ok)
    show ?thesis
    proof (cases ok)
      case True
      with v Inr have "validate_session e (objects m ! a) m = (Inr True, s1, m1)"
        by simp
      then have "state s1 \<noteq> RATE_LIMITED"
        by (simp add: validate_session_true_state)
      with s1 have s2: "P (fst (update_session_activity e s1 m1))" by (rule U)
      obtain j where j: "snd (update_session_activity e s1 m1)
          = persist_session e (fst (update_session_activity e s1 m1)) (m1\<lparr>step := j\<rparr>)"
        using update_session_activity_manager by blast
      from inv1 s2 have "record_inv P (persist_session e (fst (update_session_activity e s1 m1))
          (m1\<lparr>step := j\<rparr>))"
        by (intro record_inv_persist) simp_all
      with j have "record_inv P (snd (update_session_activity e s1 m1))" by simp
      then have "record_inv P ((snd (update_session_activity e s1 m1))
          \<lparr>objects := (objects (snd (update_session_activity e s1 m1)))
                       [a := fst (update_session_activity e s1 m1)]\<rparr>)"
        using s2 by (rule record_inv_store)
      with Some v Inr True show ?thesis
        by (cases "update_session_activity e s1 m1") (simp add: get_session_def)
    next
      case False
      from inv2 have "record_inv P (m1\<lparr>objects := (objects m1)[a := s1]\<rparr>
          \<lparr>active_sessions := AList.delete p (active_sessions (m1\<lparr>objects := (objects m1)[a := s1]\<rparr>))\<rparr>)"
        by (rule record_inv_evict)
      then have "record_inv P (m1\<lparr>objects := (objects m1)[a := s1],
          active_sessions := AList.delete p (active_sessions m1)\<rparr>)"
        by simp
      from get_session_restore_inv [OF this V C]
      have "record_inv P (snd (get_session_restore e p force_new
          (m1\<lparr>objects := (objects m1)[a := s1],
              active_sessions := AList.delete p (active_sessions m1)\<rparr>)))"
        by simp
      with Some v Inr False show ?thesis
        by (simp add: get_session_def)
    qed
  qed
qed

lemma handle_rate_limit_inv:
  assumes inv: "record_inv P m"
    and R: "\<And>s msg m. P s \<Longrightarrow> P (fst (snd (handle_rate_limit e s msg m)))"
    and a: "a < length (objects m)"
  shows "record_inv P (perform e (HandleRateLimit a msg) m)"
proof -
  obtain rep s1 m1 where h: "handle_rate_limit e (objects m ! a) msg m = (rep, s1, m1)"
    by (cases "handle_rate_limit e (objects m ! a) msg m") auto
  from inv a have "P (objects m ! a)"
    by (simp add: record_inv_def list_all_length)
  then have "P (fst (snd (handle_rate_limit e (objects m ! a) msg m)))"
    by (rule R)
  with h have s1: "P s1" by simp
  from h have m1: "m1 = persist_session e s1 (m\<lparr>step := Suc (step m)\<rparr>)"
    by (auto simp: handle_rate_limit_def Let_def)
  from inv have "record_inv P (m\<lparr>step := Suc (step m)\<rparr>)" by simp
  then have "record_inv P m1"
    unfolding m1 using s1 by (rule record_inv_persist)
  then have "record_inv P (m1\<lparr>objects := (objects m1)[a := s1]\<rparr>)"
    using s1 by (rule record_inv_store)
  with a h show ?thesis
    by (simp add: perform_def)
qed

lemma handle_authentication_required_inv:
  assumes inv: "record_inv P m"
    and A: "\<And>s m. P s \<Longrightarrow> P (fst (snd (handle_authentication_required e s m)))"
    and a: "a < length (objects m)"
  shows "record_inv P (perform e (HandleAuthRequired a) m)"
proof -
  obtain res s1 m1 where h: "handle_authentication_required e (objects m ! a) m = (res, s1, m1)"
    by (cases "handle_authentication_required e (objects m ! a) m") auto
  from inv a have "P (objects m ! a)"
    by (simp add: record_inv_def list_all_length)
  then have "P (fst (snd (handle_authentication_required e (objects m ! a) m)))"
    by (rule A)
  with h have s1: "P s1" by simp
  from h have "m1 = m\<lparr>step := Suc (step m)\<rparr>
      \<or> m1 = persist_session e s1 (m\<lparr>step := Suc (step m)\<rparr>)"
    by (auto simp: handle_authentication_required_def Let_def split: gw_reply.splits if_splits)
  moreover from inv have i: "record_inv P (m\<lparr>step := Suc (step m)\<rparr>)" by simp
  moreover from i s1 have "record_inv P (persist_session e s1 (m\<lparr>step := Suc (step m)\<rparr>))"
    by (rule record_inv_persist)
  ultimately have "record_inv P m1" by auto
  then have "record_inv P (m1\<lparr>objects := (objects m1)[a := s1]\<rparr>)"
    using s1 by (rule record_inv_store)
  with a h show ?thesis
    by (simp add: perform_def)
qed

lemma cleanup_expired_sessions_inv:
  assumes "record_inv P m"
  shows "record_inv P (cleanup_expired_sessions e m)"
  using assms by (auto simp: record_inv_def cleanup_expired_sessions_def Let_def list_all_iff)

lemma perform_inv:
  assumes inv: "record_inv P m"
    and V: "\<And>s m. P s \<Longrightarrow> P (fst (snd (validate_session e s m)))"
    and U: "\<And>s m. P s \<Longrightarrow> state s \<noteq> RATE_LIMITED \<Longrightarrow> P (fst (update_session_activity e s m))"
    and C: "\<And>p m u s m1. create_new_session e p m = (Inr u, s, m1) \<Longrightarrow> P s"
    and R: "\<And>s msg m. P s \<Longrightarrow> P (fst (snd (handle_rate_limit e s msg m)))"
    and A: "\<And>s m. is_auth opn \<Longrightarrow> P s \<Longrightarrow> P (fst (snd (handle_authentication_required e s m)))"
  shows "record_inv P (perform e opn m)"
proof (cases opn)
  case (GetSession p force_new)
  with get_session_inv [OF inv V U C] show ?thesis
    by (simp add: perform_def)
next
  case (HandleRateLimit a msg)
  show ?thesis
  proof (cases "a < length (objects m)")
    case True
    with inv R show ?thesis
      unfolding HandleRateLimit by (intro handle_rate_limit_inv)
  next
    case False
    with inv HandleRateLimit show ?thesis
      by (simp add: perform_def)
  qed
next
  case (HandleAuthRequired a)
  then have auth: "is_auth opn" by (simp add: is_auth_def)
  show ?thesis
  proof (cases "a < length (objects m)")
    case True
    with inv A [OF auth] show ?thesis
      unfolding HandleAuthRequired by (intro handle_authentication_required_inv)
  next
    case False
    with inv HandleAuthRequired show ?thesis
      by (simp add: perform_def)
  qed
next
  case CleanupExpired
  with inv show ?thesis
    by (simp add: perform_def cleanup_expired_sessions_inv)
next
  case GetStats
  with inv show ?thesis
    by (simp add: perform_def)
qed

lemma run_inv:
  assumes inv: "record_inv P m"
    and V: "\<And>s m. P s \<Longrightarrow> P (fst (snd (validate_session e s m)))"
    and U: "\<And>s m. P s \<Longrightarrow> state s \<noteq> RATE_LIMITED \<Longrightarrow> P (fst (update_session_activity e s m))"
    and C: "\<And>p m u s m1. create_new_session e p m = (Inr u, s, m1) \<Longrightarrow> P s"
    and R: "\<And>s msg m. P s \<Longrightarrow> P (fst (snd (handle_rate_limit e s msg m)))"
    and A: "\<And>opn s m. opn \<in> set ops \<Longrightarrow> is_auth opn \<Longrightarrow> P s
              \<Longrightarrow> P (fst (snd (handle_authentication_required e s m)))"
  shows "record_inv P (run e ops m)"
  using inv A
proof (induction ops arbitrary: m)
  case Nil
  then show ?case by (simp add: run_Nil)
next
  case (Cons opn ops)
  have "record_inv P (perform e opn m)"
    using Cons.prems(1) V U C R
  proof (rule perform_inv)
    fix s m' assume "is_auth opn" "P s"
    then show "P (fst (snd (handle_authentication_required e s m')))"
      using Cons.prems(2) [of opn] by simp
  qed
  then have "record_inv P (run e ops (perform e opn m))"
    using Cons.prems(2) by (intro Cons.IH) auto
  then show ?case by (simp add: run_Cons)
qed


section \<open>Rate limiting and the reset time\<close>

lemma limited_has_reset_validate:
  "limited_has_reset s \<Longrightarrow> limited_has_reset (fst (snd (validate_session e s m)))"
  by (auto simp: limited_has_reset_def validate_session_def Let_def
           split: option.splits prod.splits)

lemma limited_has_reset_update:
  "limited_has_reset s \<Longrightarrow> limited_has_reset (fst (update_session_activity e s m))"
  by (simp add: limited_has_reset_def update_session_activity_def Let_def)

lemma initialize_session_success:
  assumes "initialize_session e s m = (Inr u, s1, m1)"
  shows "state s1 = ACTIVE \<and> rate_limit_reset s1 = rate_limit_reset s
         \<and> request_count s1 = request_count s
         \<and> max_requests_per_hour s1 = max_requests_per_hour s
         \<and> expires_at s1 = expires_at s \<and> platform s1 = platform s
         \<and> platform_configs (platform s) \<noteq> None"
  using assms
  by (auto simp: initialize_session_def Let_def process_session_init_result_def
           split: option.splits gw_reply.splits if_splits)

lemma create_new_session_success:
  assumes "create_new_session e p m = (Inr u, s, m1)"
  shows "state s = ACTIVE \<and> rate_limit_reset s = None \<and> request_count s = 0
         \<and> platform_configs p \<noteq> None
         \<and> max_requests_per_hour s = cfg_max_requests_per_hour (the (platform_configs p))
         \<and> expires_at s
             = clock e (step m + 2) + td_hours (session_lifetime_hours (the (platform_configs p)))"
proof -
  from assms have i: "initialize_session e (new_session_record e p (step m))
      (m\<lparr>step := step m + 5\<rparr>) = (Inr u, s, m1)"
    by (simp add: create_new_session_def)
  from initialize_session_success [OF i] show ?thesis
    by (auto simp: new_session_record_def)
qed

lemma limited_has_reset_create:
  "create_new_session e p m = (Inr u, s, m1) \<Longrightarrow> limited_has_reset s"
  by (simp add: limited_has_reset_def create_new_session_success)

lemma limited_has_reset_rate_limit:
  "limited_has_reset (fst (snd (handle_rate_limit e s msg m)))"
  by (simp add: limited_has_reset_def handle_rate_limit_def Let_def)

lemma limited_has_reset_auth:
  "limited_has_reset (fst (snd (handle_authentication_required e s m)))"
  by (simp add: limited_has_reset_def handle_authentication_required_def Let_def
           split: gw_reply.splits)

lemma reset_kept_eval:
  "let m = run hour_env
             [GetSession ''chatgpt'' False, HandleRateLimit 0 None, GetSession ''chatgpt'' False]
             init_manager
   in length (objects m) = 1 \<and> state (objects m ! 0) = ACTIVE
      \<and> rate_limit_reset (objects m ! 0) = Some 1700030600000000
      \<and> request_count (objects m ! 0) = 1"
  by (simp add: run_simps eval_defs demo_env_def hour_env_def init_manager_def cong: eval_congs)

text \<open>
  Claim C2 says that a record has a reset time exactly when its state is \<open>RATE_LIMITED\<close>,
  the recovery of the validity check clearing it. The code never clears it: after a
  session is created, reported rate limited, and asked for again once the cool-down has
  passed (the clock here advances one hour per reading), the record is \<open>ACTIVE\<close> and
  still has its reset time.
\<close>

theorem reset_kept_after_recovery_counterexample:
  "state (objects (run hour_env
            [GetSession ''chatgpt'' False, HandleRateLimit 0 None, GetSession ''chatgpt'' False]
            init_manager) ! 0) = ACTIVE
   \<and> rate_limit_reset (objects (run hour_env
            [GetSession ''chatgpt'' False, HandleRateLimit 0 None, GetSession ''chatgpt'' False]
            init_manager) ! 0) = Some 1700030600000000"
  using reset_kept_eval by (simp only: Let_def)

text \<open>
  Claim C2, amended. Starting from a manager whose records satisfy it, after any
  sequence of public operations every record in state \<open>RATE_LIMITED\<close> has a reset time,
  in the heap and in the store (the converse fails); and the recovery of the validity
  check, for a rate limited record that is not expired and whose reset time is reached,
  sets the state to \<open>ACTIVE\<close> and the request count to 0, and leaves the reset time as it
  is.
\<close>

theorem limited_record_has_reset:
  assumes "record_inv limited_has_reset m0"
  shows "record_inv limited_has_reset (run e ops m0)
         \<and> (state s = RATE_LIMITED \<and> \<not> expires_at s < clock e (step m)
              \<and> (\<forall>r. rate_limit_reset s = Some r \<longrightarrow> r \<le> clock e (Suc (step m)))
            \<longrightarrow> state (fst (snd (validate_session e s m))) = ACTIVE
                \<and> request_count (fst (snd (validate_session e s m))) = 0
                \<and> rate_limit_reset (fst (snd (validate_session e s m))) = rate_limit_reset s)"
proof -
  have "record_inv limited_has_reset (run e ops m0)"
    using assms
    by (rule run_inv)
       (simp_all add: limited_has_reset_validate limited_has_reset_update
          limited_has_reset_create limited_has_reset_rate_limit limited_has_reset_auth)
  moreover have "state (fst (snd (validate_session e s m))) = ACTIVE
      \<and> request_count (fst (snd (validate_session e s m))) = 0
      \<and> rate_limit_reset (fst (snd (validate_session e s m))) = rate_limit_reset s"
    if "state s = RATE_LIMITED" "\<not> expires_at s < clock e (step m)"
      "\<forall>r. rate_limit_reset s = Some r \<longrightarrow> r \<le> clock e (Suc (step m))"
    using that
    by (auto simp: validate_session_def Let_def split: option.splits prod.splits)
  ultimately show ?thesis by blast
qed

theorem limited_record_has_reset_witness:
  "record_inv limited_has_reset init_manager
   \<and> state limited_session = RATE_LIMITED
   \<and> \<not> expires_at limited_session < clock demo_env (step stored_manager)
   \<and> rate_limit_reset limited_session = Some 1700000000000005
   \<and> 1700000000000005 \<le> clock demo_env (Suc (step stored_manager))
   \<and> record_inv limited_has_reset (run demo_env [GetSession ''chatgpt'' False] init_manager)
   \<and> state (fst (snd (validate_session demo_env limited_session stored_manager))) = ACTIVE
   \<and> request_count (fst (snd (validate_session demo_env limited_session stored_manager))) = 0
   \<and> rate_limit_reset (fst (snd (validate_session demo_env limited_session stored_manager)))
       = Some 1700000000000005"
proof -
  have i: "record_inv limited_has_reset init_manager"
    by (simp add: record_inv_def init_manager_def)
  have s: "state limited_session = RATE_LIMITED"
    "rate_limit_reset limited_session = Some 1700000000000005"
    by (simp_all add: limited_session_def)
  have x: "\<not> expires_at limited_session < clock demo_env (step stored_manager)"
    by (simp add: limited_session_def stored_session_def new_session_record_def demo_env_def
          stored_manager_def platform_configs_def td_hours_def)
  have r: "1700000000000005 \<le> clock demo_env (Suc (step stored_manager))"
    by (simp add: demo_env_def stored_manager_def)
  from s r have a: "\<forall>r. rate_limit_reset limited_session = Some r
      \<longrightarrow> r \<le> clock demo_env (Suc (step stored_manager))"
    by simp
  from limited_record_has_reset
    [OF i, of demo_env "[GetSession ''chatgpt'' False]" limited_session stored_manager]
    i s x r a
  show ?thesis by simp
qed

section \<open>The activity update and the quota\<close>

lemma within_quota_validate:
  "within_quota s \<Longrightarrow> within_quota (fst (snd (validate_session e s m)))"
  by (auto simp: within_quota_def validate_session_def Let_def split: option.splits prod.splits)

lemma within_quota_update:
  "within_quota s \<Longrightarrow> state s \<noteq> RATE_LIMITED
     \<Longrightarrow> within_quota (fst (update_session_activity e s m))"
  by (auto simp: within_quota_def update_session_activity_def Let_def)

lemma within_quota_create:
  assumes "create_new_session e p m = (Inr u, s, m1)"
  shows "within_quota s"
proof -
  from create_new_session_success [OF assms] have
    "state s = ACTIVE" "request_count s = 0" "platform_configs p \<noteq> None"
    "max_requests_per_hour s = cfg_max_requests_per_hour (the (platform_configs p))"
    by simp_all
  moreover from this(3) have "0 < cfg_max_requests_per_hour (the (platform_configs p))"
    by (auto simp: platform_configs_def split: if_splits)
  ultimately show ?thesis
    by (simp add: within_quota_def)
qed

lemma within_quota_rate_limit:
  "within_quota s \<Longrightarrow> within_quota (fst (snd (handle_rate_limit e s msg m)))"
  by (simp add: within_quota_def handle_rate_limit_def Let_def)

lemma quota_exceeded_eval:
  "let m = run demo_env
             (replicate 26 (GetSession ''perplexity'' False)
              @ [HandleAuthRequired 0, GetSession ''perplexity'' False])
             init_manager
   in request_count (objects m ! 0) = 26 \<and> max_requests_per_hour (objects m ! 0) = 25"
  by (simp add: run_simps eval_defs demo_env_def init_manager_def cong: eval_congs)

text \<open>
  Claim C3 says that the request count never exceeds the quota under any sequence of
  operations. For \<^verbatim>\<open>perplexity\<close>, with a quota of 25: a creation and 25 further calls
  bring the record to 25 requests and \<open>RATE_LIMITED\<close>; the authentication handler then
  sets it \<open>ACTIVE\<close> without touching the count, and the next call counts 26.
\<close>

theorem quota_exceeded_counterexample:
  "request_count (objects (run demo_env
       (replicate 26 (GetSession ''perplexity'' False)
        @ [HandleAuthRequired 0, GetSession ''perplexity'' False]) init_manager) ! 0) = 26
   \<and> max_requests_per_hour (objects (run demo_env
       (replicate 26 (GetSession ''perplexity'' False)
        @ [HandleAuthRequired 0, GetSession ''perplexity'' False]) init_manager) ! 0) = 25"
  using quota_exceeded_eval by (simp only: Let_def)

text \<open>
  Claim C3, amended. The activity update adds exactly one to the request count; when the
  new count is at least the quota it sets the state to \<open>RATE_LIMITED\<close> and the reset
  time to one hour after the clock's next reading, and otherwise it leaves state and
  reset time alone. Starting from a manager whose records are within their quota, after
  any sequence of public operations without the authentication handler no request count
  exceeds its quota.
\<close>

theorem activity_update_within_quota:
  assumes "record_inv within_quota m0"
    and "list_all (\<lambda>opn. \<not> is_auth opn) ops"
  shows "request_count (fst (update_session_activity e s m)) = request_count s + 1
         \<and> (if max_requests_per_hour s \<le> request_count s + 1
            then state (fst (update_session_activity e s m)) = RATE_LIMITED
                 \<and> rate_limit_reset (fst (update_session_activity e s m))
                     = Some (clock e (Suc (step m)) + td_hours 1)
            else state (fst (update_session_activity e s m)) = state s
                 \<and> rate_limit_reset (fst (update_session_activity e s m)) = rate_limit_reset s)
         \<and> list_all (\<lambda>s. request_count s \<le> max_requests_per_hour s) (objects (run e ops m0))"
proof -
  have "record_inv within_quota (run e ops m0)"
    using assms(1)
  proof (rule run_inv)
    fix opn s m
    assume "opn \<in> set ops" "is_auth opn"
    with assms(2) show "within_quota (fst (snd (handle_authentication_required e s m)))"
      by (simp add: list_all_iff)
  qed (simp_all add: within_quota_validate within_quota_update within_quota_create
         within_quota_rate_limit)
  then have "list_all (\<lambda>s. request_count s \<le> max_requests_per_hour s) (objects (run e ops m0))"
    by (simp add: record_inv_def list_all_iff within_quota_def)
  then show ?thesis
    by (simp add: update_session_activity_def Let_def)
qed

theorem activity_update_within_quota_witness:
  "record_inv within_quota init_manager
   \<and> list_all (\<lambda>opn. \<not> is_auth opn) [GetSession ''perplexity'' False, HandleRateLimit 0 None]
   \<and> max_requests_per_hour busy_session \<le> request_count busy_session + 1
   \<and> request_count (fst (update_session_activity demo_env busy_session stored_manager)) = 50
   \<and> state (fst (update_session_activity demo_env busy_session stored_manager)) = RATE_LIMITED
   \<and> rate_limit_reset (fst (update_session_activity demo_env busy_session stored_manager))
       = Some (1700000000000009 + td_hours 1)
   \<and> list_all (\<lambda>s. request_count s \<le> max_requests_per_hour s)
       (objects (run demo_env [GetSession ''perplexity'' False, HandleRateLimit 0 None]
                   init_manager))"
proof -
  have i: "record_inv within_quota init_manager"
    by (simp add: record_inv_def init_manager_def)
  have o: "list_all (\<lambda>opn. \<not> is_auth opn) [GetSession ''perplexity'' False, HandleRateLimit 0 None]"
    by (simp add: is_auth_def)
  have b: "max_requests_per_hour busy_session \<le> request_count busy_session + 1"
    "request_count busy_session + 1 = 50"
    "clock demo_env (Suc (step stored_manager)) = 1700000000000009"
    by (simp_all add: busy_session_def stored_session_def new_session_record_def
          platform_configs_def demo_env_def stored_manager_def)
  from activity_update_within_quota [OF i o, of demo_env busy_session stored_manager] i o b
  show ?thesis by simp
qed

section \<open>Expired records\<close>



lemma validate_session_platform:
  "platform (fst (snd (validate_session e s m))) = platform s"
  by (auto simp: validate_session_def Let_def split: option.splits prod.splits)





















end
